theory Spec2Isabelle
  imports Complex_Main "HOL-Library.Word"
begin

section \<open>JavaScript strings and regular expressions\<close>

text \<open>
  The handler of \<^verbatim>\<open>api/proxy.js\<close> works on JavaScript strings with string methods and
  regular-expression literals.  A string is modelled as a \<^typ>\<open>string\<close>, each character
  standing for one code unit in the range U+0000 .. U+00FF; host names and serialised
  URLs are ASCII, and the patterns and separators of the handler are ASCII too.  The
  backslash, which cannot be written inside a string literal, is \<open>CHR 0x5C\<close>.
\<close>

abbreviation BSL :: char where
  "BSL \<equiv> CHR 0x5C"

text \<open>
  White space as \<^verbatim>\<open>String.prototype.trim\<close> and the class \<^verbatim>\<open>\s\<close> see it (WhiteSpace and
  LineTerminator of ECMAScript): TAB, LF, VT, FF, CR, SP and NBSP are the members below
  U+0100.
\<close>

definition is_ws :: "char \<Rightarrow> bool" where
  "is_ws c = (c = CHR 0x09 \<or> c = CHR 0x0A \<or> c = CHR 0x0B \<or> c = CHR 0x0C \<or> c = CHR 0x0D
              \<or> c = CHR 0x20 \<or> c = CHR 0xA0)"

text \<open>
  \<^verbatim>\<open>Canonicalize\<close> of a regular expression with the \<^verbatim>\<open>i\<close> flag and without the \<^verbatim>\<open>u\<close> flag:
  the character's upper case, unless that maps a non-ASCII character to an ASCII one.
  The model changes the ASCII letters only.  The other characters below U+0100 that
  have an upper case of their own are not ASCII and stay non-ASCII, so they differ from
  every ASCII character before and after; every pattern character of the handler is
  ASCII, so each comparison of an input character with a pattern character comes out
  as in JavaScript.
\<close>

definition Canonicalize :: "char \<Rightarrow> char" where
  "Canonicalize c =
     (case map_of (zip ''abcdefghijklmnopqrstuvwxyz'' ''ABCDEFGHIJKLMNOPQRSTUVWXYZ'') c of
        Some u \<Rightarrow> u
      | None \<Rightarrow> c)"

definition same_char :: "bool \<Rightarrow> char \<Rightarrow> char \<Rightarrow> bool" where
  "same_char ic a c = (if ic then Canonicalize a = Canonicalize c else a = c)"

text \<open>
  The atoms of the patterns: a literal character, the dot (any character but a line
  terminator), a class \<^verbatim>\<open>[...]\<close> and a negated class \<^verbatim>\<open>[^...]\<close>.
\<close>

datatype cls = Lit char | Dot | OneOf string | NoneOf string

fun cls_ok :: "bool \<Rightarrow> cls \<Rightarrow> char \<Rightarrow> bool" where
  "cls_ok ic (Lit a) c = same_char ic a c"
| "cls_ok ic Dot c = (c \<noteq> CHR 0x0A \<and> c \<noteq> CHR 0x0D)"
| "cls_ok ic (OneOf as) c = list_ex (\<lambda>a. same_char ic a c) as"
| "cls_ok ic (NoneOf as) c = (\<not> list_ex (\<lambda>a. same_char ic a c) as)"

text \<open>
  The patterns: concatenation, alternation (the left alternative first), the greedy
  star over an atom, a capturing group with its number, the assertions \<^verbatim>\<open>^\<close> and \<^verbatim>\<open>$\<close>
  (no \<^verbatim>\<open>m\<close> flag: start and end of the input), and the empty pattern.
\<close>

datatype re = Atom cls | Cat re re | Alt re re | Star cls | Group nat re | Bol | Eol | Eps

text \<open>
  The backtracking matcher, in the style of the ECMAScript specification: it runs a
  pattern against the rest of the input with a continuation, here the list of what is
  still to be matched.  The state is whether the position is the start of the input,
  the rest of the input, and the captures made so far (the latest first).  \<open>Close n s0\<close>
  ends group \<open>n\<close>, which was entered with \<open>s0\<close> left to read.
\<close>

datatype item = R re | Close nat string

type_synonym captures = "(nat \<times> string) list"
type_synonym mstate = "bool \<times> string \<times> captures"

fun re_size :: "re \<Rightarrow> nat" where
  "re_size (Cat r1 r2) = Suc (re_size r1 + re_size r2)"
| "re_size (Alt r1 r2) = Suc (re_size r1 + re_size r2)"
| "re_size (Group n r) = Suc (Suc (re_size r))"
| "re_size _ = 1"

fun item_size :: "item \<Rightarrow> nat" where
  "item_size (R r) = re_size r"
| "item_size (Close n s0) = 1"

function run :: "bool \<Rightarrow> item list \<Rightarrow> mstate \<Rightarrow> mstate option" where
  "run ic [] st = Some st"
| "run ic (R (Atom cl) # k) (b, s, cp) =
     (case s of
        [] \<Rightarrow> None
      | c # cs \<Rightarrow> if cls_ok ic cl c then run ic k (False, cs, cp) else None)"
| "run ic (R (Cat r1 r2) # k) st = run ic (R r1 # R r2 # k) st"
| "run ic (R (Alt r1 r2) # k) st =
     (case run ic (R r1 # k) st of
        Some res \<Rightarrow> Some res
      | None \<Rightarrow> run ic (R r2 # k) st)"
| "run ic (R (Star cl) # k) (b, s, cp) =
     (case s of
        [] \<Rightarrow> run ic k (b, s, cp)
      | c # cs \<Rightarrow>
          if cls_ok ic cl c
          then (case run ic (R (Star cl) # k) (False, cs, cp) of
                  Some res \<Rightarrow> Some res
                | None \<Rightarrow> run ic k (b, s, cp))
          else run ic k (b, s, cp))"
| "run ic (R (Group n r) # k) (b, s, cp) = run ic (R r # Close n s # k) (b, s, cp)"
| "run ic (R Bol # k) (b, s, cp) = (if b then run ic k (b, s, cp) else None)"
| "run ic (R Eol # k) (b, s, cp) = (if s = [] then run ic k (b, s, cp) else None)"
| "run ic (R Eps # k) st = run ic k st"
| "run ic (Close n s0 # k) (b, s, cp) =
     run ic k (b, s, (n, take (length s0 - length s) s0) # cp)"
  by pat_completeness auto
termination
  by (relation "measures [\<lambda>(ic, k, (b, s, cp)). length s,
                          \<lambda>(ic, k, st). sum_list (map item_size k)]") auto

text \<open>
  One attempt to match pattern \<open>r\<close> at the current position: the rest of the input after
  the match and the captures, or \<open>None\<close>.
\<close>

definition match_here :: "bool \<Rightarrow> re \<Rightarrow> bool \<Rightarrow> string \<Rightarrow> (string \<times> captures) option" where
  "match_here ic r b s =
     (case run ic [R r] (b, s, []) of
        None \<Rightarrow> None
      | Some (b', rest, cp) \<Rightarrow> Some (rest, cp))"

text \<open>
  \<^verbatim>\<open>RegExp.prototype.test\<close> of a pattern without the \<^verbatim>\<open>g\<close> flag: the match is tried at
  every position from the start of the input to its end, the end included.
\<close>

fun search :: "bool \<Rightarrow> re \<Rightarrow> bool \<Rightarrow> string \<Rightarrow> bool" where
  "search ic r b [] = (match_here ic r b [] \<noteq> None)"
| "search ic r b (c # cs) =
     (if match_here ic r b (c # cs) \<noteq> None then True else search ic r False cs)"

definition re_test :: "bool \<Rightarrow> re \<Rightarrow> string \<Rightarrow> bool" where
  "re_test ic r s = search ic r True s"

text \<open>
  \<^verbatim>\<open>String.prototype.replace\<close> with a pattern that has the \<^verbatim>\<open>g\<close> flag.  As in the
  ECMAScript algorithm, the matches are collected first, from left to right, each
  search starting where the last match ended (one character further after an empty
  match); then the result is put together from the text between the matches and what
  the replacement function returns for each match.  \<open>segments\<close> is the first phase: the
  input cut into the characters that are kept and the matches with their captures.
\<close>

datatype seg = Keep char | Hit string captures

function segments :: "bool \<Rightarrow> re \<Rightarrow> bool \<Rightarrow> string \<Rightarrow> seg list" where
  "segments ic r b s =
     (case match_here ic r b s of
        Some (rest, cp) \<Rightarrow>
          if length rest < length s
          then Hit (take (length s - length rest) s) cp # segments ic r False rest
          else Hit [] cp # (case s of [] \<Rightarrow> [] | c # cs \<Rightarrow> Keep c # segments ic r False cs)
      | None \<Rightarrow> (case s of [] \<Rightarrow> [] | c # cs \<Rightarrow> Keep c # segments ic r False cs))"
  by pat_completeness auto
termination
  by (relation "measure (\<lambda>(ic, r, b, s). length s)") auto

fun seg_text :: "seg \<Rightarrow> string" where
  "seg_text (Keep c) = [c]"
| "seg_text (Hit m cp) = m"

fun render :: "(string \<Rightarrow> captures \<Rightarrow> string) \<Rightarrow> seg \<Rightarrow> string" where
  "render f (Keep c) = [c]"
| "render f (Hit m cp) = f m cp"

definition js_replace :: "bool \<Rightarrow> re \<Rightarrow> (string \<Rightarrow> captures \<Rightarrow> string) \<Rightarrow> string \<Rightarrow> string" where
  "js_replace ic r f s = concat (map (render f) (segments ic r True s))"

text \<open>
  A capture as the replacement function receives it; a group that did not take part
  in the match is \<^verbatim>\<open>undefined\<close>, which a template literal and \<^verbatim>\<open>new URL\<close> turn into the
  text \<^verbatim>\<open>undefined\<close>.
\<close>

definition capture :: "captures \<Rightarrow> nat \<Rightarrow> string" where
  "capture cp n = (case map_of cp n of Some v \<Rightarrow> v | None \<Rightarrow> ''undefined'')"

text \<open>Pattern builders: a literal text, \<^verbatim>\<open>x+\<close> over an atom, and a sequence.\<close>

fun str :: "string \<Rightarrow> re" where
  "str [] = Eps"
| "str (c # cs) = Cat (Atom (Lit c)) (str cs)"

definition OneOrMore :: "cls \<Rightarrow> re" where
  "OneOrMore cl = Cat (Atom cl) (Star cl)"

fun cats :: "re list \<Rightarrow> re" where
  "cats [] = Eps"
| "cats (r # rs) = Cat r (cats rs)"

text \<open>The string methods the handler calls.\<close>

definition trim :: "string \<Rightarrow> string" where
  "trim s = rev (dropWhile is_ws (rev (dropWhile is_ws s)))"

text \<open>\<^verbatim>\<open>s.split(',')\<close>: the pieces between the separators; the empty string gives one empty piece.\<close>

fun split_on :: "char \<Rightarrow> string \<Rightarrow> string list" where
  "split_on d [] = [[]]"
| "split_on d (c # cs) =
     (if c = d then [] # split_on d cs
      else (case split_on d cs of
              [] \<Rightarrow> [[c]]
            | p # ps \<Rightarrow> (c # p) # ps))"

text \<open>\<^verbatim>\<open>xs.join(sep)\<close>.\<close>

fun join :: "string \<Rightarrow> string list \<Rightarrow> string" where
  "join sep [] = []"
| "join sep [x] = x"
| "join sep (x # y # ys) = x @ sep @ join sep (y # ys)"

definition endsWith :: "string \<Rightarrow> string \<Rightarrow> bool" where
  "endsWith s x = (length x \<le> length s \<and> drop (length s - length x) s = x)"

definition startsWith :: "string \<Rightarrow> string \<Rightarrow> bool" where
  "startsWith s x = (take (length x) s = x)"

fun js_includes :: "string \<Rightarrow> string \<Rightarrow> bool" where
  "js_includes [] x = (x = [])"
| "js_includes (c # cs) x = (if startsWith (c # cs) x then True else js_includes cs x)"

text \<open>
  \<^verbatim>\<open>encodeURIComponent\<close>: the unreserved characters stay, every other character is
  written as the bytes of its UTF-8 encoding, each as \<^verbatim>\<open>%XX\<close> in upper-case hexadecimal
  (one byte below U+0080, two bytes from U+0080 to U+00FF).
\<close>

definition unreserved :: "char \<Rightarrow> bool" where
  "unreserved c = (c \<in> set (''ABCDEFGHIJKLMNOPQRSTUVWXYZabcdefghijklmnopqrstuvwxyz''
                            @ ''0123456789-_.!~*()'' @ [CHR 0x27]))"

definition hex_digit :: "nat \<Rightarrow> char" where
  "hex_digit n = ''0123456789ABCDEF'' ! (n mod 16)"

definition pct :: "nat \<Rightarrow> string" where
  "pct n = [CHR ''%'', hex_digit (n div 16), hex_digit n]"

definition encode_char :: "char \<Rightarrow> string" where
  "encode_char c =
     (if unreserved c then [c]
      else if (of_char c :: nat) < 128 then pct (of_char c)
      else pct (192 + of_char c div 64) @ pct (128 + of_char c mod 64))"

definition encodeURIComponent :: "string \<Rightarrow> string" where
  "encodeURIComponent s = concat (map encode_char s)"

section \<open>The handler of api/proxy.js\<close>

subsection \<open>Request, environment, platform and response\<close>

text \<open>
  What the handler reads of the request: \<^verbatim>\<open>req.query.url\<close> (a string, or an array when
  the parameter is given more than once; \<open>None\<close> when \<^verbatim>\<open>req.query\<close> or the parameter is
  missing), the headers \<^verbatim>\<open>x-target-url\<close>, \<^verbatim>\<open>x-api-key\<close> and \<^verbatim>\<open>host\<close>, and \<^verbatim>\<open>req.protocol\<close>.
\<close>

datatype query_value = QStr string | QArr "string list"

record request =
  query_url :: "query_value option"
  x_target_url :: "string option"
  x_api_key :: "string option"
  req_protocol :: "string option"
  req_host :: "string option"

text \<open>\<^verbatim>\<open>process.env\<close>: the variables \<^verbatim>\<open>API_KEY\<close> and \<^verbatim>\<open>ALLOWLIST\<close>, each a string or unset.\<close>

record environment =
  API_KEY :: "string option"
  ALLOWLIST :: "string option"

text \<open>What the handler reads of a \<^verbatim>\<open>URL\<close> object; \<open>href\<close> is what \<^verbatim>\<open>toString()\<close> returns.\<close>

record url =
  protocol :: string
  hostname :: string
  href :: string

text \<open>
  A JavaScript number as \<^verbatim>\<open>Number(s)\<close> returns it, with the three comparisons the
  handler makes.
\<close>

datatype number = NaN | Fin rat | PosInf | NegInf

fun num_is :: "number \<Rightarrow> rat \<Rightarrow> bool" where
  "num_is (Fin x) y = (x = y)"
| "num_is _ y = False"

fun num_ge :: "number \<Rightarrow> rat \<Rightarrow> bool" where
  "num_ge (Fin x) y = (y \<le> x)"
| "num_ge PosInf y = True"
| "num_ge _ y = False"

fun num_le :: "number \<Rightarrow> rat \<Rightarrow> bool" where
  "num_le (Fin x) y = (x \<le> y)"
| "num_le NegInf y = True"
| "num_le _ y = False"

text \<open>A thrown value: its \<^verbatim>\<open>message\<close> property and what \<^verbatim>\<open>String(err)\<close> gives.\<close>

datatype js_error = JsError (err_message: string) (err_string: string)

type_synonym byte = "8 word"

text \<open>
  The upstream response once it has arrived: the status, \<^verbatim>\<open>headers.get('content-type')\<close>
  (\<open>None\<close> for \<^verbatim>\<open>null\<close>), and the body as \<^verbatim>\<open>text()\<close> and as \<^verbatim>\<open>arrayBuffer()\<close> give it.
\<close>

record upstream =
  up_status :: nat
  up_content_type :: "string option"
  up_text :: string
  up_bytes :: "byte list"

text \<open>
  The functions of the platform, parameters of the model: \<^verbatim>\<open>new URL(s)\<close> (\<open>None\<close> when
  it throws), \<^verbatim>\<open>new URL(v, base).toString()\<close> (\<open>None\<close> when it throws), \<^verbatim>\<open>Number\<close>, and
  \<^verbatim>\<open>fetch\<close> with the reading of the body (\<open>Inl\<close> the value thrown).  The model takes the
  fetch and the reading of the body as one step that succeeds or throws; a failure
  while the body of a response that is not HTML is read, after line 93 has set the
  content type, is not told apart from a failure of the fetch.
\<close>

record platform =
  URL_parse :: "string \<Rightarrow> url option"
  URL_resolve :: "string \<Rightarrow> url \<Rightarrow> string option"
  Number :: "string \<Rightarrow> number"
  fetch :: "string \<Rightarrow> js_error + upstream"

text \<open>What the handler sends: the status, the headers it set, in order, and the body.\<close>

datatype payload = Text string | Bytes "byte list"

record response =
  status :: nat
  headers :: "(string \<times> string) list"
  body :: payload

definition plain :: "nat \<Rightarrow> string \<Rightarrow> response" where
  "plain code msg = \<lparr>status = code, headers = [], body = Text msg\<rparr>"

subsection \<open>The patterns of the handler\<close>

text \<open>
  Each pattern is the regular-expression literal of the source, read as JavaScript
  reads it.  In a literal, \<^verbatim>\<open>\\\<close> is an escaped backslash: \<^verbatim>\<open>\\.\<close> is a backslash and then
  any character, \<^verbatim>\<open>\\d+\<close> is a backslash and then one or more letters d, and \<^verbatim>\<open>\\2\<close> is
  a backslash and then the digit 2.

  Line 22, first pattern: \<^verbatim>\<open>/^(localhost|127(?:\\.|$)|0\\.0\\.0\\.0|::1)$/\<close>.
\<close>

definition local_host_re :: re where
  "local_host_re =
     cats [Bol,
           Group 1
             (Alt (str ''localhost'')
             (Alt (cats [str ''127'', Alt (cats [Atom (Lit BSL), Atom Dot]) Eol])
             (Alt (cats [str ''0'', Atom (Lit BSL), Atom Dot, str ''0'', Atom (Lit BSL), Atom Dot,
                         str ''0'', Atom (Lit BSL), Atom Dot, str ''0''])
                  (str ''::1'')))),
           Eol]"

text \<open>Line 22, second pattern: \<^verbatim>\<open>/\.local$/i\<close>.\<close>

definition dot_local_re :: re where
  "dot_local_re = cats [str ''.local'', Eol]"

text \<open>Line 26: \<^verbatim>\<open>/^\\d+\\.\\d+\\.\\d+\\.\\d+$/\<close>.\<close>

definition dotted_quad_re :: re where
  "dotted_quad_re =
     cats [Bol,
           Atom (Lit BSL), OneOrMore (Lit CHR ''d''), Atom (Lit BSL), Atom Dot,
           Atom (Lit BSL), OneOrMore (Lit CHR ''d''), Atom (Lit BSL), Atom Dot,
           Atom (Lit BSL), OneOrMore (Lit CHR ''d''), Atom (Lit BSL), Atom Dot,
           Atom (Lit BSL), OneOrMore (Lit CHR ''d''),
           Eol]"

text \<open>Line 51: \<^verbatim>\<open>/<meta[^>]*http-equiv=["']Content-Security-Policy["'][^>]*>/ig\<close>.\<close>

definition csp_meta_re :: re where
  "csp_meta_re =
     cats [str ''<meta'', Star (NoneOf ''>''), str ''http-equiv='',
           Atom (OneOf [CHR 0x22, CHR 0x27]), str ''Content-Security-Policy'',
           Atom (OneOf [CHR 0x22, CHR 0x27]), Star (NoneOf ''>''), str ''>'']"

text \<open>Line 64: \<^verbatim>\<open>/(src|href|action)=("|\')([^"\'>]+)\\2/ig\<close>.\<close>

definition attr_re :: re where
  "attr_re =
     cats [Group 1 (Alt (str ''src'') (Alt (str ''href'') (str ''action''))),
           str ''='',
           Group 2 (Alt (Atom (Lit (CHR 0x22))) (Atom (Lit (CHR 0x27)))),
           Group 3 (OneOrMore (NoneOf [CHR 0x22, CHR 0x27, CHR ''>''])),
           Atom (Lit BSL), str ''2'']"

text \<open>Line 67: \<^verbatim>\<open>/srcset=("|\')([^"']+)\\1/ig\<close>.\<close>

definition srcset_re :: re where
  "srcset_re =
     cats [str ''srcset='',
           Group 1 (Alt (Atom (Lit (CHR 0x22))) (Atom (Lit (CHR 0x27)))),
           Group 2 (OneOrMore (NoneOf [CHR 0x22, CHR 0x27])),
           Atom (Lit BSL), str ''1'']"

subsection \<open>Validation of the request (lines 5 to 40)\<close>

text \<open>
  Line 5: \<^verbatim>\<open>(req.query && req.query.url) || req.headers['x-target-url']\<close>.  A string is
  truthy when it is not empty, an array always; \<open>None\<close> is \<^verbatim>\<open>undefined\<close>.
\<close>

fun truthy :: "query_value option \<Rightarrow> bool" where
  "truthy None = False"
| "truthy (Some (QStr s)) = (s \<noteq> [])"
| "truthy (Some (QArr xs)) = True"

definition targetUrl :: "request \<Rightarrow> query_value option" where
  "targetUrl req =
     (if truthy (query_url req) then query_url req else map_option QStr (x_target_url req))"

text \<open>The string \<^verbatim>\<open>new URL\<close> makes of its argument: an array is joined with commas.\<close>

fun to_string :: "query_value \<Rightarrow> string" where
  "to_string (QStr s) = s"
| "to_string (QArr xs) = join '','' xs"

text \<open>
  Lines 9 to 13: with \<^verbatim>\<open>API_KEY = process.env.API_KEY || ''\<close> not empty, the header
  \<^verbatim>\<open>x-api-key\<close>, or the empty string in its place, must be that key.
\<close>

definition api_key_of :: "environment \<Rightarrow> string" where
  "api_key_of env = (case API_KEY env of Some k \<Rightarrow> k | None \<Rightarrow> [])"

definition provided :: "request \<Rightarrow> string" where
  "provided req = (case x_api_key req of Some k \<Rightarrow> k | None \<Rightarrow> [])"

definition unauthorized :: "environment \<Rightarrow> request \<Rightarrow> bool" where
  "unauthorized env req =
     (if api_key_of env \<noteq> [] then provided req \<noteq> api_key_of env else False)"

text \<open>Lines 21 to 24: the two tests on the host name.\<close>

definition forbidden_host :: "string \<Rightarrow> bool" where
  "forbidden_host host =
     (if re_test False local_host_re host then True else re_test True dot_local_re host)"

text \<open>
  Lines 26 to 33: when the host name passes the pattern of line 26, its pieces between
  the dots are turned into numbers; an index past the end gives \<^verbatim>\<open>undefined\<close>, which
  compares like \<open>NaN\<close>.
\<close>

definition part :: "number list \<Rightarrow> nat \<Rightarrow> number" where
  "part parts i = (if i < length parts then parts ! i else NaN)"

definition forbidden_ip_range :: "(string \<Rightarrow> number) \<Rightarrow> string \<Rightarrow> bool" where
  "forbidden_ip_range to_number host =
     (if re_test False dotted_quad_re host
      then (let parts = map to_number (split_on CHR ''.'' host) in
            if num_is (part parts 0) 10 then True
            else if num_is (part parts 0) 172 \<and> num_ge (part parts 1) 16 \<and> num_le (part parts 1) 31
            then True
            else num_is (part parts 0) 192 \<and> num_is (part parts 1) 168)
      else False)"

text \<open>
  Lines 36 to 40: \<^verbatim>\<open>(process.env.ALLOWLIST || '').split(',').map(s => s.trim()).filter(Boolean)\<close>
  and the test of the host name against it.
\<close>

definition allowlist :: "environment \<Rightarrow> string list" where
  "allowlist env =
     filter (\<lambda>s. s \<noteq> [])
       (map trim (split_on CHR '','' (case ALLOWLIST env of Some a \<Rightarrow> a | None \<Rightarrow> [])))"

definition allowlist_ok :: "string list \<Rightarrow> string \<Rightarrow> bool" where
  "allowlist_ok al host = list_ex (\<lambda>a. if a = host then True else endsWith host (CHR ''.'' # a)) al"

text \<open>
  The gates in the order of the source; each \<^verbatim>\<open>return res.status(..).send(..)\<close> is an
  \<open>Inl\<close>, and \<open>Inr target\<close> is the parsed URL that goes on to be fetched.  The dash of the
  message of line 12 is written as the three bytes the source file has for it.
\<close>

definition validate :: "platform \<Rightarrow> environment \<Rightarrow> request \<Rightarrow> response + url" where
  "validate pf env req =
     (case (if truthy (targetUrl req) then targetUrl req else None) of
        None \<Rightarrow> Inl (plain 400 (''Missing '' @ [CHR 0x22] @ ''url'' @ [CHR 0x22] @ '' query parameter''))
      | Some tu \<Rightarrow>
          if unauthorized env req
          then Inl (plain 401 (''Unauthorized '' @ [CHR 0xE2, CHR 0x80, CHR 0x94] @ '' invalid API key''))
          else
            (case URL_parse pf (to_string tu) of
               None \<Rightarrow> Inl (plain 400 ''Invalid URL'')
             | Some target \<Rightarrow>
                 if protocol target \<noteq> ''http:'' \<and> protocol target \<noteq> ''https:''
                 then Inl (plain 400 ''Only http/https allowed'')
                 else
                   (let host = hostname target in
                    if forbidden_host host then Inl (plain 403 ''Forbidden host'')
                    else if forbidden_ip_range (Number pf) host
                    then Inl (plain 403 ''Forbidden IP range'')
                    else if allowlist env \<noteq> [] \<and> \<not> allowlist_ok (allowlist env) host
                    then Inl (plain 403 ''Host not allowed by allowlist'')
                    else Inr target)))"

subsection \<open>Rewriting of an HTML body (lines 51 to 81)\<close>

text \<open>Lines 58 and 74: \<^verbatim>\<open>`${req.protocol || 'https'}://${req.headers.host}/api/proxy`\<close>.\<close>

definition proxyBase :: "request \<Rightarrow> string" where
  "proxyBase req =
     (case req_protocol req of
        Some p \<Rightarrow> if p \<noteq> [] then p else ''https''
      | None \<Rightarrow> ''https'')
     @ ''://'' @ (case req_host req of Some h \<Rightarrow> h | None \<Rightarrow> ''undefined'') @ ''/api/proxy''"

text \<open>
  Lines 55 to 63, the replacement function of line 64: \<open>m\<close> is the match and the
  captures are \<^verbatim>\<open>attr\<close>, \<^verbatim>\<open>q\<close> and \<^verbatim>\<open>val\<close>.  An exception of \<^verbatim>\<open>new URL\<close> is caught and the
  match is returned as it is.
\<close>

definition rewriteAttr :: "platform \<Rightarrow> request \<Rightarrow> url \<Rightarrow> string \<Rightarrow> captures \<Rightarrow> string" where
  "rewriteAttr pf req target m cp =
     (let attr = capture cp 1; q = capture cp 2; val = capture cp 3 in
      case URL_resolve pf val target of
        None \<Rightarrow> m
      | Some abs_url \<Rightarrow>
          attr @ ''='' @ q @ proxyBase req @ ''?url='' @ encodeURIComponent abs_url @ q)"

text \<open>
  Lines 70 to 76, one candidate of a \<^verbatim>\<open>srcset\<close>: \<^verbatim>\<open>part.split(/\s+/)[0]\<close> is the text
  before the first white space, \<^verbatim>\<open>rest\<close> what follows it.  \<open>None\<close> is the exception of
  \<^verbatim>\<open>new URL\<close>.
\<close>

definition rewritePart :: "platform \<Rightarrow> request \<Rightarrow> url \<Rightarrow> string \<Rightarrow> string option" where
  "rewritePart pf req target p =
     (let urlPart = takeWhile (\<lambda>c. \<not> is_ws c) p; rest = drop (length urlPart) p in
      case URL_resolve pf urlPart target of
        None \<Rightarrow> None
      | Some abs_url \<Rightarrow> Some (proxyBase req @ ''?url='' @ encodeURIComponent abs_url @ rest))"

text \<open>
  Lines 67 to 81, the replacement function for \<^verbatim>\<open>srcset\<close>: the captures are \<^verbatim>\<open>q\<close> and
  \<^verbatim>\<open>val\<close>.  An exception in any candidate is caught and the match is returned as it is.
\<close>

definition rewriteSrcset :: "platform \<Rightarrow> request \<Rightarrow> url \<Rightarrow> string \<Rightarrow> captures \<Rightarrow> string" where
  "rewriteSrcset pf req target m cp =
     (let q = capture cp 1; val = capture cp 2;
          parts = map trim (split_on CHR '','' val) in
      case those (map (rewritePart pf req target) parts) of
        None \<Rightarrow> m
      | Some rewritten \<Rightarrow> ''srcset='' @ q @ join '', '' rewritten @ q)"

text \<open>Line 51: the meta tags that the pattern matches are replaced by the empty string.\<close>

definition remove_csp_meta :: "string \<Rightarrow> string" where
  "remove_csp_meta html = js_replace True csp_meta_re (\<lambda>m cp. []) html"

definition rewrite_attrs :: "platform \<Rightarrow> request \<Rightarrow> url \<Rightarrow> string \<Rightarrow> string" where
  "rewrite_attrs pf req target html = js_replace True attr_re (rewriteAttr pf req target) html"

definition rewrite_srcsets :: "platform \<Rightarrow> request \<Rightarrow> url \<Rightarrow> string \<Rightarrow> string" where
  "rewrite_srcsets pf req target html =
     js_replace True srcset_re (rewriteSrcset pf req target) html"

definition rewrite_html :: "platform \<Rightarrow> request \<Rightarrow> url \<Rightarrow> string \<Rightarrow> string" where
  "rewrite_html pf req target html =
     rewrite_srcsets pf req target (rewrite_attrs pf req target (remove_csp_meta html))"

subsection \<open>The handler (lines 3 to 103)\<close>

text \<open>Line 101: \<^verbatim>\<open>String(err.message || err)\<close>.\<close>

definition err_text :: "js_error \<Rightarrow> string" where
  "err_text e = (if err_message e \<noteq> [] then err_message e else err_string e)"

definition handler :: "platform \<Rightarrow> environment \<Rightarrow> request \<Rightarrow> response" where
  "handler pf env req =
     (case validate pf env req of
        Inl rejection \<Rightarrow> rejection
      | Inr target \<Rightarrow>
          (case fetch pf (href target) of
             Inl err \<Rightarrow> plain 502 (''Proxy error: '' @ err_text err)
           | Inr up \<Rightarrow>
               (let contentType = (case up_content_type up of Some c \<Rightarrow> c | None \<Rightarrow> []) in
                if js_includes contentType ''text/html''
                then \<lparr>status = 200,
                      headers = [(''content-type'', ''text/html; charset=utf-8''),
                                 (''Content-Security-Policy'', ''frame-ancestors *'')],
                      body = Text (rewrite_html pf req target (up_text up))\<rparr>
                else \<lparr>status = up_status up,
                      headers = (case up_content_type up of
                                   None \<Rightarrow> []
                                 | Some ct \<Rightarrow> if ct \<noteq> [] then [(''content-type'', ct)] else []),
                      body = Bytes (up_bytes up)\<rparr>)))"

section \<open>The words a pattern can match\<close>

text \<open>
  For the proofs, the set of texts a pattern can match at all, whatever the backtracking
  order picks; the assertions \<^verbatim>\<open>^\<close> and \<^verbatim>\<open>$\<close> match the empty text and are not checked
  here.  \<open>anchor_free\<close> holds of a pattern without these assertions.
\<close>

fun lang :: "bool \<Rightarrow> re \<Rightarrow> string set" where
  "lang ic (Atom cl) = {w. \<exists>c. w = [c] \<and> cls_ok ic cl c}"
| "lang ic (Cat r1 r2) = {w. \<exists>x y. w = x @ y \<and> x \<in> lang ic r1 \<and> y \<in> lang ic r2}"
| "lang ic (Alt r1 r2) = lang ic r1 \<union> lang ic r2"
| "lang ic (Star cl) = {w. list_all (cls_ok ic cl) w}"
| "lang ic (Group n r) = lang ic r"
| "lang ic Bol = {[]}"
| "lang ic Eol = {[]}"
| "lang ic Eps = {[]}"

fun anchor_free :: "re \<Rightarrow> bool" where
  "anchor_free (Cat r1 r2) = (anchor_free r1 \<and> anchor_free r2)"
| "anchor_free (Alt r1 r2) = (anchor_free r1 \<and> anchor_free r2)"
| "anchor_free (Group n r) = anchor_free r"
| "anchor_free Bol = False"
| "anchor_free Eol = False"
| "anchor_free _ = True"

text \<open>The characters that the \<^verbatim>\<open>i\<close> flag can identify with another one.\<close>

definition letter :: "char \<Rightarrow> bool" where
  "letter c = (c \<in> set ''abcdefghijklmnopqrstuvwxyzABCDEFGHIJKLMNOPQRSTUVWXYZ'')"

text \<open>
  A meta tag as the specification writes it, \<^verbatim>\<open><meta ... http-equiv="Content-Security-Policy" ...>\<close>,
  read with each \<^verbatim>\<open>...\<close> as any characters other than \<^verbatim>\<open>>\<close>: the text \<^verbatim>\<open><meta\<close>, characters
  other than \<^verbatim>\<open>>\<close>, \<^verbatim>\<open>http-equiv=\<close>, a double or single quote, \<^verbatim>\<open>Content-Security-Policy\<close>, a
  double or single quote, characters other than \<^verbatim>\<open>>\<close>, and the closing \<^verbatim>\<open>>\<close>, the letters
  in upper or lower case.  A tag with a \<^verbatim>\<open>>\<close> inside one of its attribute values is not of
  this form.
\<close>

definition is_csp_meta_tag :: "string \<Rightarrow> bool" where
  "is_csp_meta_tag w =
     (\<exists>a b c q1 d q2 e.
        w = a @ b @ c @ [q1] @ d @ [q2] @ e @ ''>''
      \<and> list_all2 (same_char True) ''<meta'' a
      \<and> CHR ''>'' \<notin> set b
      \<and> list_all2 (same_char True) ''http-equiv='' c
      \<and> (q1 = CHR 0x22 \<or> q1 = CHR 0x27)
      \<and> list_all2 (same_char True) ''Content-Security-Policy'' d
      \<and> (q2 = CHR 0x22 \<or> q2 = CHR 0x27)
      \<and> CHR ''>'' \<notin> set e)"

section \<open>Sample inputs\<close>

text \<open>
  Concrete values on which the theorems below are exercised: some results of
  \<^verbatim>\<open>new URL\<close>, a resolver that knows two references and throws on every other one,
  \<^verbatim>\<open>Number\<close> on strings of decimal digits, an upstream response with a given content type
  (the body \<^verbatim>\<open><p>hi</p>\<close> as text and as bytes), and a request for a given target.
\<close>

definition sample_parse :: "string \<Rightarrow> url option" where
  "sample_parse =
     map_of
       [(''http://127.0.0.1/'', \<lparr>protocol = ''http:'', hostname = ''127.0.0.1'', href = ''http://127.0.0.1/''\<rparr>),
        (''http://0.0.0.0/'', \<lparr>protocol = ''http:'', hostname = ''0.0.0.0'', href = ''http://0.0.0.0/''\<rparr>),
        (''http://10.0.0.1/'', \<lparr>protocol = ''http:'', hostname = ''10.0.0.1'', href = ''http://10.0.0.1/''\<rparr>),
        (''http://localhost/'', \<lparr>protocol = ''http:'', hostname = ''localhost'', href = ''http://localhost/''\<rparr>),
        (''https://example.com/'', \<lparr>protocol = ''https:'', hostname = ''example.com'', href = ''https://example.com/''\<rparr>),
        (''https://api.example.com/'', \<lparr>protocol = ''https:'', hostname = ''api.example.com'', href = ''https://api.example.com/''\<rparr>),
        (''https://evil.com/'', \<lparr>protocol = ''https:'', hostname = ''evil.com'', href = ''https://evil.com/''\<rparr>),
        (''ftp://example.com/'', \<lparr>protocol = ''ftp:'', hostname = ''example.com'', href = ''ftp://example.com/''\<rparr>)]"

definition sample_resolve :: "string \<Rightarrow> url \<Rightarrow> string option" where
  "sample_resolve v base =
     map_of [(''ok.png'', href base @ ''ok.png''), (''/x'', ''https://example.com/x'')] v"

definition sample_number :: "string \<Rightarrow> number" where
  "sample_number s =
     (if s \<noteq> [] \<and> list_all (\<lambda>c. c \<in> set ''0123456789'') s
      then Fin (of_nat (foldl (\<lambda>n c. 10 * n + (of_char c - 48)) 0 s))
      else NaN)"

definition sample_upstream :: "string \<Rightarrow> upstream" where
  "sample_upstream ct = \<lparr>up_status = 404, up_content_type = Some ct,
                          up_text = ''<p>hi</p>'', up_bytes = [0x3C, 0x70, 0x3E, 0x68, 0x69, 0x3C, 0x2F, 0x70, 0x3E]\<rparr>"

definition sample_platform :: "string \<Rightarrow> platform" where
  "sample_platform ct = \<lparr>URL_parse = sample_parse, URL_resolve = sample_resolve,
                         Number = sample_number, fetch = (\<lambda>u. Inr (sample_upstream ct))\<rparr>"

definition sample_request :: "string \<Rightarrow> string option \<Rightarrow> request" where
  "sample_request u key = \<lparr>query_url = Some (QStr u), x_target_url = None, x_api_key = key,
                            req_protocol = None, req_host = Some ''p.test''\<rparr>"

section \<open>Properties of the matcher\<close>

text \<open>A successful run of a pattern consumes a word of its language and goes on with the continuation.\<close>

lemma run_Star_sound:
  "run ic (R (Star cl) # k) (b, s, cp) = Some res \<Longrightarrow>
   \<exists>x rest b'. s = x @ rest \<and> list_all (cls_ok ic cl) x \<and> run ic k (b', rest, cp) = Some res"
proof (induction s arbitrary: b)
  case Nil
  then show ?case by auto
next
  case (Cons c cs)
  show ?case
  proof (cases "cls_ok ic cl c")
    case False
    with Cons.prems have "run ic k (b, c # cs, cp) = Some res" by simp
    then have "c # cs = [] @ (c # cs) \<and> list_all (cls_ok ic cl) []
        \<and> run ic k (b, c # cs, cp) = Some res" by simp
    then show ?thesis by blast
  next
    case True
    show ?thesis
    proof (cases "run ic (R (Star cl) # k) (False, cs, cp)")
      case None
      with True Cons.prems have "run ic k (b, c # cs, cp) = Some res" by simp
      then have "c # cs = [] @ (c # cs) \<and> list_all (cls_ok ic cl) []
          \<and> run ic k (b, c # cs, cp) = Some res" by simp
      then show ?thesis by blast
    next
      case (Some r')
      with True Cons.prems have "run ic (R (Star cl) # k) (False, cs, cp) = Some res" by simp
      from Cons.IH[OF this] obtain x rest b' where
        "cs = x @ rest" "list_all (cls_ok ic cl) x" "run ic k (b', rest, cp) = Some res" by blast
      with True have "c # cs = (c # x) @ rest \<and> list_all (cls_ok ic cl) (c # x)
          \<and> run ic k (b', rest, cp) = Some res" by simp
      then show ?thesis by blast
    qed
  qed
qed

lemma run_sound:
  "run ic (R r # k) (b, s, cp) = Some res \<Longrightarrow>
   \<exists>x rest b' cp'. s = x @ rest \<and> x \<in> lang ic r \<and> run ic k (b', rest, cp') = Some res"
proof (induction r arbitrary: k b s cp)
  case (Atom cl)
  then obtain c cs where "s = [c] @ cs" "cls_ok ic cl c" "run ic k (False, cs, cp) = Some res"
    by (cases s) (auto split: if_splits)
  then have "s = [c] @ cs \<and> [c] \<in> lang ic (Atom cl) \<and> run ic k (False, cs, cp) = Some res"
    by simp
  then show ?case by blast
next
  case (Cat r1 r2)
  from Cat.prems have "run ic (R r1 # R r2 # k) (b, s, cp) = Some res" by simp
  from Cat.IH(1)[OF this] obtain x1 rest1 b1 cp1 where
    1: "s = x1 @ rest1" "x1 \<in> lang ic r1" "run ic (R r2 # k) (b1, rest1, cp1) = Some res" by blast
  from Cat.IH(2)[OF 1(3)] obtain x2 rest b2 cp2 where
    2: "rest1 = x2 @ rest" "x2 \<in> lang ic r2" "run ic k (b2, rest, cp2) = Some res" by blast
  from 1 2 have "s = (x1 @ x2) @ rest \<and> x1 @ x2 \<in> lang ic (Cat r1 r2)" by auto
  with 2(3) show ?case by blast
next
  case (Alt r1 r2)
  show ?case
  proof (cases "run ic (R r1 # k) (b, s, cp)")
    case None
    with Alt.prems have "run ic (R r2 # k) (b, s, cp) = Some res" by simp
    from Alt.IH(2)[OF this] show ?thesis by auto
  next
    case (Some r')
    with Alt.prems have "run ic (R r1 # k) (b, s, cp) = Some res" by simp
    from Alt.IH(1)[OF this] show ?thesis by auto
  qed
next
  case (Star cl)
  from run_Star_sound[OF Star.prems] show ?case by auto
next
  case (Group n r)
  from Group.prems have "run ic (R r # Close n s # k) (b, s, cp) = Some res" by simp
  from Group.IH[OF this] obtain x rest b' cp' where
    1: "s = x @ rest" "x \<in> lang ic r" "run ic (Close n s # k) (b', rest, cp') = Some res" by blast
  then show ?case by auto
next
  case Bol
  then show ?case by (auto split: if_splits)
next
  case Eol
  then show ?case by (auto split: if_splits)
next
  case Eps
  then show ?case by auto
qed

lemma match_here_sound:
  assumes "match_here ic r b s = Some (rest, cp)"
  shows "\<exists>x. s = x @ rest \<and> x \<in> lang ic r"
proof -
  from assms obtain b' where "run ic [R r] (b, s, []) = Some (b', rest, cp)"
    by (auto simp: match_here_def split: option.splits)
  from run_sound[OF this] show ?thesis by auto
qed

section \<open>Properties of the patterns\<close>

lemma Canonicalize_nonletter: "\<not> letter c \<Longrightarrow> Canonicalize c = c"
  by (simp add: letter_def Canonicalize_def)

lemma Canonicalize_letter: "letter (Canonicalize c) \<longleftrightarrow> letter c"
  unfolding letter_def Canonicalize_def by (simp split: if_splits) 

lemma same_char_nonletter: "same_char ic a c \<Longrightarrow> \<not> letter c \<Longrightarrow> a = c"
proof -
  assume sc: "same_char ic a c" and nl: "\<not> letter c"
  show "a = c"
  proof (cases ic)
    case False
    with sc show ?thesis by (simp add: same_char_def)
  next
    case True
    with sc have eq: "Canonicalize a = Canonicalize c" by (simp add: same_char_def)
    with nl have "Canonicalize a = c" by (simp add: Canonicalize_nonletter)
    moreover from this nl have "\<not> letter a" using Canonicalize_letter[of a] by simp
    ultimately show ?thesis by (simp add: Canonicalize_nonletter)
  qed
qed

lemma same_char_sym: "same_char ic a c \<Longrightarrow> same_char ic c a"
  by (auto simp: same_char_def)

lemma same_char_nonletter_pattern: "same_char ic a c \<Longrightarrow> \<not> letter a \<Longrightarrow> a = c"
  using same_char_nonletter[OF same_char_sym] by auto

lemma same_char_refl: "same_char ic c c"
  by (simp add: same_char_def)


lemma lang_Cat_Atom:
  "w \<in> lang ic (Cat (Atom cl) r) \<longleftrightarrow> (\<exists>c v. w = c # v \<and> cls_ok ic cl c \<and> v \<in> lang ic r)"
proof
  assume "w \<in> lang ic (Cat (Atom cl) r)"
  then obtain x y where "w = x @ y" "x \<in> lang ic (Atom cl)" "y \<in> lang ic r" by auto
  then show "\<exists>c v. w = c # v \<and> cls_ok ic cl c \<and> v \<in> lang ic r" by auto
next
  assume "\<exists>c v. w = c # v \<and> cls_ok ic cl c \<and> v \<in> lang ic r"
  then obtain c v where "w = [c] @ v" "cls_ok ic cl c" "v \<in> lang ic r" by auto
  then have "w = [c] @ v \<and> [c] \<in> lang ic (Atom cl) \<and> v \<in> lang ic r" by simp
  then show "w \<in> lang ic (Cat (Atom cl) r)" unfolding lang.simps by blast
qed

lemma lang_str_iff: "w \<in> lang ic (str p) \<longleftrightarrow> list_all2 (same_char ic) p w"
proof (induction p arbitrary: w)
  case Nil
  then show ?case by simp
next
  case (Cons a p)
  show ?case unfolding str.simps lang_Cat_Atom by (cases w) (auto simp: Cons.IH)
qed

lemma lang_str_avoids:
  assumes "w \<in> lang ic (str p)" and "c \<notin> set p" and "\<not> letter c"
  shows "c \<notin> set w"
proof
  assume "c \<in> set w"
  then obtain i where i: "i < length w" "w ! i = c" by (auto simp: in_set_conv_nth)
  from assms(1) have l: "list_all2 (same_char ic) p w" by (simp add: lang_str_iff)
  with i have "same_char ic (p ! i) c" "i < length p"
    by (auto simp: list_all2_conv_all_nth)
  with assms(3) have "p ! i = c" "i < length p" by (auto dest: same_char_nonletter)
  with assms(2) show False by auto
qed

lemma lang_Star_avoids:
  assumes "w \<in> lang ic (Star (NoneOf ds))" and "c \<in> set ds"
  shows "c \<notin> set w"
proof
  assume "c \<in> set w"
  with assms(1) have "cls_ok ic (NoneOf ds) c" by (simp add: list_all_iff)
  with assms(2) same_char_refl[of ic c] show False by (auto simp: list_ex_iff)
qed

lemma lang_catsE:
  assumes "w \<in> lang ic (cats (r # rs))"
  obtains x y where "w = x @ y" and "x \<in> lang ic r" and "y \<in> lang ic (cats rs)"
  using assms by auto

lemma lang_Lit_nonletter: "w \<in> lang ic (Atom (Lit a)) \<Longrightarrow> \<not> letter a \<Longrightarrow> w = [a]"
  by (auto dest: same_char_nonletter_pattern)

lemma not_letter: "\<not> letter CHR ''>''" "\<not> letter BSL" "\<not> letter (CHR 0x22)" "\<not> letter (CHR 0x27)"
  by (simp_all add: letter_def)

lemma lang_quote_avoids:
  assumes "w \<in> lang ic (Atom (OneOf [CHR 0x22, CHR 0x27]))"
  shows "CHR ''>'' \<notin> set w"
proof -
  from assms obtain c where c: "w = [c]"
    and "same_char ic (CHR 0x22) c \<or> same_char ic (CHR 0x27) c" by auto
  then have "c = CHR ''>'' \<Longrightarrow> False"
    using same_char_nonletter[of ic "CHR 0x22" "CHR ''>''"]
          same_char_nonletter[of ic "CHR 0x27" "CHR ''>''"] not_letter(1) by auto
  with c show ?thesis by auto
qed

lemma csp_tag_shape:
  assumes "w \<in> lang True csp_meta_re"
  shows "\<exists>t. w = t @ ''>'' \<and> CHR ''>'' \<notin> set t"
proof -
  from assms[unfolded csp_meta_re_def] obtain x1 y1 where 1: "w = x1 @ y1"
    "x1 \<in> lang True (str ''<meta'')" and "y1 \<in> lang True (cats [Star (NoneOf ''>''), str ''http-equiv='',
           Atom (OneOf [CHR 0x22, CHR 0x27]), str ''Content-Security-Policy'',
           Atom (OneOf [CHR 0x22, CHR 0x27]), Star (NoneOf ''>''), str ''>''])"
    by (rule lang_catsE)
  from this(3) obtain x2 y2 where 2: "y1 = x2 @ y2" "x2 \<in> lang True (Star (NoneOf ''>''))"
    and "y2 \<in> lang True (cats [str ''http-equiv='',
           Atom (OneOf [CHR 0x22, CHR 0x27]), str ''Content-Security-Policy'',
           Atom (OneOf [CHR 0x22, CHR 0x27]), Star (NoneOf ''>''), str ''>''])"
    by (rule lang_catsE)
  from this(3) obtain x3 y3 where 3: "y2 = x3 @ y3" "x3 \<in> lang True (str ''http-equiv='')"
    and "y3 \<in> lang True (cats [Atom (OneOf [CHR 0x22, CHR 0x27]), str ''Content-Security-Policy'',
           Atom (OneOf [CHR 0x22, CHR 0x27]), Star (NoneOf ''>''), str ''>''])"
    by (rule lang_catsE)
  from this(3) obtain x4 y4 where 4: "y3 = x4 @ y4" "x4 \<in> lang True (Atom (OneOf [CHR 0x22, CHR 0x27]))"
    and "y4 \<in> lang True (cats [str ''Content-Security-Policy'',
           Atom (OneOf [CHR 0x22, CHR 0x27]), Star (NoneOf ''>''), str ''>''])"
    by (rule lang_catsE)
  from this(3) obtain x5 y5 where 5: "y4 = x5 @ y5" "x5 \<in> lang True (str ''Content-Security-Policy'')"
    and "y5 \<in> lang True (cats [Atom (OneOf [CHR 0x22, CHR 0x27]), Star (NoneOf ''>''), str ''>''])"
    by (rule lang_catsE)
  from this(3) obtain x6 y6 where 6: "y5 = x6 @ y6" "x6 \<in> lang True (Atom (OneOf [CHR 0x22, CHR 0x27]))"
    and "y6 \<in> lang True (cats [Star (NoneOf ''>''), str ''>''])"
    by (rule lang_catsE)
  from this(3) obtain x7 y7 where 7: "y6 = x7 @ y7" "x7 \<in> lang True (Star (NoneOf ''>''))"
    and "y7 \<in> lang True (cats [str ''>''])"
    by (rule lang_catsE)
  from this(3) have 8: "y7 = ''>''" unfolding cats.simps str.simps lang_Cat_Atom
    by (auto dest: same_char_nonletter_pattern simp: not_letter)
  have "CHR ''>'' \<notin> set x1" by (rule lang_str_avoids[OF 1(2)]) (simp_all add: not_letter)
  moreover have "CHR ''>'' \<notin> set x2" by (rule lang_Star_avoids[OF 2(2)]) simp
  moreover have "CHR ''>'' \<notin> set x3" by (rule lang_str_avoids[OF 3(2)]) (simp_all add: not_letter)
  moreover have "CHR ''>'' \<notin> set x4" by (rule lang_quote_avoids[OF 4(2)])
  moreover have "CHR ''>'' \<notin> set x5" by (rule lang_str_avoids[OF 5(2)]) (simp_all add: not_letter)
  moreover have "CHR ''>'' \<notin> set x6" by (rule lang_quote_avoids[OF 6(2)])
  moreover have "CHR ''>'' \<notin> set x7" by (rule lang_Star_avoids[OF 7(2)]) simp
  ultimately have "CHR ''>'' \<notin> set (x1 @ x2 @ x3 @ x4 @ x5 @ x6 @ x7)" by simp
  moreover from 1 2 3 4 5 6 7 8 have "w = (x1 @ x2 @ x3 @ x4 @ x5 @ x6 @ x7) @ ''>''" by simp
  ultimately show ?thesis by blast
qed


lemma attr_match_has_backslash:
  assumes "w \<in> lang True attr_re"
  shows "BSL \<in> set w"
proof -
  from assms[unfolded attr_re_def] obtain x1 y1 where 1: "w = x1 @ y1"
    and "y1 \<in> lang True (cats [str ''='',
           Group 2 (Alt (Atom (Lit (CHR 0x22))) (Atom (Lit (CHR 0x27)))),
           Group 3 (OneOrMore (NoneOf [CHR 0x22, CHR 0x27, CHR ''>''])),
           Atom (Lit BSL), str ''2''])"
    by (rule lang_catsE)
  from this(2) obtain x2 y2 where 2: "y1 = x2 @ y2"
    and "y2 \<in> lang True (cats [
           Group 2 (Alt (Atom (Lit (CHR 0x22))) (Atom (Lit (CHR 0x27)))),
           Group 3 (OneOrMore (NoneOf [CHR 0x22, CHR 0x27, CHR ''>''])),
           Atom (Lit BSL), str ''2''])"
    by (rule lang_catsE)
  from this(2) obtain x3 y3 where 3: "y2 = x3 @ y3"
    and "y3 \<in> lang True (cats [
           Group 3 (OneOrMore (NoneOf [CHR 0x22, CHR 0x27, CHR ''>''])),
           Atom (Lit BSL), str ''2''])"
    by (rule lang_catsE)
  from this(2) obtain x4 y4 where 4: "y3 = x4 @ y4"
    and "y4 \<in> lang True (cats [Atom (Lit BSL), str ''2''])"
    by (rule lang_catsE)
  from this(2) obtain x5 y5 where 5: "y4 = x5 @ y5" and "x5 \<in> lang True (Atom (Lit BSL))"
    by (rule lang_catsE)
  from this(2) have "x5 = [BSL]" by (rule lang_Lit_nonletter) (rule not_letter)
  with 1 2 3 4 5 show ?thesis by simp
qed

lemma srcset_match_has_backslash:
  assumes "w \<in> lang True srcset_re"
  shows "BSL \<in> set w"
proof -
  from assms[unfolded srcset_re_def] obtain x1 y1 where 1: "w = x1 @ y1"
    and "y1 \<in> lang True (cats [
           Group 1 (Alt (Atom (Lit (CHR 0x22))) (Atom (Lit (CHR 0x27)))),
           Group 2 (OneOrMore (NoneOf [CHR 0x22, CHR 0x27])),
           Atom (Lit BSL), str ''1''])"
    by (rule lang_catsE)
  from this(2) obtain x2 y2 where 2: "y1 = x2 @ y2"
    and "y2 \<in> lang True (cats [
           Group 2 (OneOrMore (NoneOf [CHR 0x22, CHR 0x27])),
           Atom (Lit BSL), str ''1''])"
    by (rule lang_catsE)
  from this(2) obtain x3 y3 where 3: "y2 = x3 @ y3"
    and "y3 \<in> lang True (cats [Atom (Lit BSL), str ''1''])"
    by (rule lang_catsE)
  from this(2) obtain x4 y4 where 4: "y3 = x4 @ y4" and "x4 \<in> lang True (Atom (Lit BSL))"
    by (rule lang_catsE)
  from this(2) have "x4 = [BSL]" by (rule lang_Lit_nonletter) (rule not_letter)
  with 1 2 3 4 show ?thesis by simp
qed

lemma dotted_quad_starts_with_backslash:
  assumes "w \<in> lang False dotted_quad_re"
  shows "\<exists>v. w = BSL # v"
proof -
  from assms[unfolded dotted_quad_re_def] obtain x1 y1 where 1: "w = x1 @ y1"
    and "x1 \<in> lang False Bol"
    and "y1 \<in> lang False (cats [
           Atom (Lit BSL), OneOrMore (Lit CHR ''d''), Atom (Lit BSL), Atom Dot,
           Atom (Lit BSL), OneOrMore (Lit CHR ''d''), Atom (Lit BSL), Atom Dot,
           Atom (Lit BSL), OneOrMore (Lit CHR ''d''), Atom (Lit BSL), Atom Dot,
           Atom (Lit BSL), OneOrMore (Lit CHR ''d''),
           Eol])"
    by (rule lang_catsE)
  from this(3) obtain x2 y2 where 2: "y1 = x2 @ y2" and "x2 \<in> lang False (Atom (Lit BSL))"
    by (rule lang_catsE)
  from this(2) have "x2 = [BSL]" by (rule lang_Lit_nonletter) (rule not_letter)
  with 1 2 \<open>x1 \<in> lang False Bol\<close> show ?thesis by simp
qed

section \<open>Properties of the replacement\<close>

declare segments.simps [simp del]

lemma segments_None:
  "match_here ic r b s = None \<Longrightarrow>
   segments ic r b s = (case s of [] \<Rightarrow> [] | c # cs \<Rightarrow> Keep c # segments ic r False cs)"
  by (simp add: segments.simps[of ic r b s])

lemma segments_Some:
  "match_here ic r b s = Some (rest, cp) \<Longrightarrow> length rest < length s \<Longrightarrow>
   segments ic r b s = Hit (take (length s - length rest) s) cp # segments ic r False rest"
  by (simp add: segments.simps[of ic r b s])

lemma segments_Some_empty:
  "match_here ic r b s = Some (rest, cp) \<Longrightarrow> \<not> length rest < length s \<Longrightarrow>
   segments ic r b s
     = Hit [] cp # (case s of [] \<Rightarrow> [] | c # cs \<Rightarrow> Keep c # segments ic r False cs)"
  by (simp add: segments.simps[of ic r b s])

lemma segments_text: "concat (map seg_text (segments ic r b s)) = s"
proof (induction s arbitrary: b rule: length_induct)
  case (1 s)
  have IH: "\<And>t b'. length t < length s \<Longrightarrow> concat (map seg_text (segments ic r b' t)) = t"
    using 1 by blast
  show ?case
  proof (cases "match_here ic r b s")
    case None
    with IH show ?thesis by (cases s) (simp_all add: segments_None)
  next
    case (Some p)
    obtain rest cp where p: "p = (rest, cp)" by (cases p)
    from match_here_sound Some p obtain x where x: "s = x @ rest" by blast
    show ?thesis
    proof (cases "length rest < length s")
      case True
      with IH[OF True] Some p x show ?thesis by (simp add: segments_Some)
    next
      case False
      note unfold = segments_Some_empty[OF Some[unfolded p] False]
      show ?thesis
      proof (cases s)
        case Nil
        with unfold show ?thesis by simp
      next
        case (Cons c cs)
        from IH[of cs False] Cons have "concat (map seg_text (segments ic r False cs)) = cs"
          by simp
        with unfold Cons show ?thesis by simp
      qed
    qed
  qed
qed

lemma hit_in_lang:
  "Hit m cp \<in> set (segments ic r b s) \<Longrightarrow> m \<in> lang ic r \<and> (\<exists>u v. s = u @ m @ v)"
proof (induction s arbitrary: b rule: length_induct)
  case (1 s)
  have IH: "\<And>t b'. length t < length s \<Longrightarrow> Hit m cp \<in> set (segments ic r b' t)
             \<Longrightarrow> m \<in> lang ic r \<and> (\<exists>u v. t = u @ m @ v)"
    using 1 by blast
  note hit = \<open>Hit m cp \<in> set (segments ic r b s)\<close>
  have later: "m \<in> lang ic r \<and> (\<exists>u v. s = u @ m @ v)"
    if "s = p @ t" "p \<noteq> []" "Hit m cp \<in> set (segments ic r False t)" for p t
  proof -
    from that have "length t < length s" by simp
    from IH[OF this that(3)] obtain u v where "m \<in> lang ic r" "t = u @ m @ v" by auto
    with that(1) have "m \<in> lang ic r \<and> s = (p @ u) @ m @ v" by simp
    then show ?thesis by blast
  qed
  show ?case
  proof (cases "match_here ic r b s")
    case None
    show ?thesis
    proof (cases s)
      case Nil
      with None hit show ?thesis by (simp add: segments_None)
    next
      case (Cons c cs)
      with None hit have "Hit m cp \<in> set (segments ic r False cs)"
        by (simp add: segments_None)
      with later[of "[c]" cs] Cons show ?thesis by simp
    qed
  next
    case (Some p)
    obtain rest cp' where p: "p = (rest, cp')" by (cases p)
    from match_here_sound Some p obtain x where x: "s = x @ rest" "x \<in> lang ic r" by blast
    show ?thesis
    proof (cases "length rest < length s")
      case True
      with Some p x hit consider "m = x" | "Hit m cp \<in> set (segments ic r False rest)"
        by (auto simp: segments_Some)
      then show ?thesis
      proof cases
        case 1
        with x have "m \<in> lang ic r \<and> s = [] @ m @ rest" by simp
        then show ?thesis by blast
      next
        case 2
        from True x have "x \<noteq> []" by auto
        from later[OF x(1) this 2] show ?thesis .
      qed
    next
      case False
      with x have xe: "x = []" by simp
      from Some p False hit consider "m = []"
        | c cs where "s = c # cs" "Hit m cp \<in> set (segments ic r False cs)"
        by (cases s) (auto simp: segments_Some_empty)
      then show ?thesis
      proof cases
        case 1
        with xe x have "m \<in> lang ic r \<and> s = [] @ m @ s" by simp
        then show ?thesis by blast
      next
        case 2
        with later[of "[c]" cs] show ?thesis by simp
      qed
    qed
  qed
qed

lemma js_replace_without_hit:
  assumes "\<And>m cp. Hit m cp \<notin> set (segments ic r True s)"
  shows "js_replace ic r f s = s"
proof -
  have "render f sg = seg_text sg" if "sg \<in> set (segments ic r True s)" for sg
  proof (cases sg)
    case (Keep c)
    then show ?thesis by simp
  next
    case (Hit m cp)
    with that assms show ?thesis by blast
  qed
  then have eq: "map (render f) (segments ic r True s) = map seg_text (segments ic r True s)"
    by simp
  have "js_replace ic r f s = concat (map seg_text (segments ic r True s))"
    unfolding js_replace_def by (rule arg_cong[where f = concat, OF eq])
  then show ?thesis by (simp only: segments_text)
qed

lemma rewrite_attrs_needs_backslash:
  assumes "BSL \<notin> set html"
  shows "rewrite_attrs pf req target html = html"
  unfolding rewrite_attrs_def
proof (rule js_replace_without_hit)
  fix m cp
  show "Hit m cp \<notin> set (segments True attr_re True html)"
  proof
    assume "Hit m cp \<in> set (segments True attr_re True html)"
    from hit_in_lang[OF this] obtain u v where "m \<in> lang True attr_re" "html = u @ m @ v" by blast
    with attr_match_has_backslash[of m] assms show False by auto
  qed
qed

lemma rewrite_srcsets_needs_backslash:
  assumes "BSL \<notin> set html"
  shows "rewrite_srcsets pf req target html = html"
  unfolding rewrite_srcsets_def
proof (rule js_replace_without_hit)
  fix m cp
  show "Hit m cp \<notin> set (segments True srcset_re True html)"
  proof
    assume "Hit m cp \<in> set (segments True srcset_re True html)"
    from hit_in_lang[OF this] obtain u v where "m \<in> lang True srcset_re" "html = u @ m @ v" by blast
    with srcset_match_has_backslash[of m] assms show False by auto
  qed
qed

lemma search_dotted_quad_later: "\<not> search False dotted_quad_re False s"
  by (induction s) (simp_all add: match_here_def dotted_quad_re_def)

lemma dotted_quad_needs_backslash:
  assumes "re_test False dotted_quad_re host"
  shows "\<exists>v. host = BSL # v"
proof -
  from assms have "match_here False dotted_quad_re True host \<noteq> None"
    unfolding re_test_def using search_dotted_quad_later
    by (cases host) (auto split: if_splits)
  then obtain rest cp where "match_here False dotted_quad_re True host = Some (rest, cp)" by auto
  from match_here_sound[OF this] obtain x where "host = x @ rest" "x \<in> lang False dotted_quad_re"
    by blast
  with dotted_quad_starts_with_backslash[of x] show ?thesis by auto
qed

lemma forbidden_ip_range_needs_backslash:
  "\<not> (\<exists>v. host = BSL # v) \<Longrightarrow> \<not> forbidden_ip_range to_number host"
  using dotted_quad_needs_backslash[of host] by (auto simp: forbidden_ip_range_def)


lemma run_Star_complete:
  assumes "list_all (cls_ok ic cl) x" and "\<And>b' cp'. run ic k (b', rest, cp') \<noteq> None"
  shows "run ic (R (Star cl) # k) (b, x @ rest, cp) \<noteq> None"
  using assms(1)
proof (induction x arbitrary: b)
  case Nil
  from assms(2) show ?case by (cases rest) (auto split: option.splits)
next
  case (Cons a x)
  then have "cls_ok ic cl a" "run ic (R (Star cl) # k) (False, x @ rest, cp) \<noteq> None" by auto
  then show ?case by (auto split: option.splits)
qed

lemma run_complete:
  assumes "anchor_free r" and "x \<in> lang ic r" and "\<And>b' cp'. run ic k (b', rest, cp') \<noteq> None"
  shows "run ic (R r # k) (b, x @ rest, cp) \<noteq> None"
  using assms
proof (induction r arbitrary: k x rest b cp)
  case (Atom cl)
  then show ?case by auto
next
  case (Cat r1 r2)
  from Cat.prems obtain x1 x2 where x: "x = x1 @ x2" "x1 \<in> lang ic r1" "x2 \<in> lang ic r2" by auto
  from Cat.prems have af: "anchor_free r1" "anchor_free r2" by auto
  have "run ic (R r2 # k) (b', x2 @ rest, cp') \<noteq> None" for b' cp'
    by (rule Cat.IH(2)[OF af(2) x(3) Cat.prems(3)])
  from Cat.IH(1)[OF af(1) x(2) this] x(1) show ?case by simp
next
  case (Alt r1 r2)
  from Alt.prems have af: "anchor_free r1" "anchor_free r2" by auto
  from Alt.prems consider "x \<in> lang ic r1" | "x \<in> lang ic r2" by auto
  then show ?case
  proof cases
    case 1
    have "run ic (R r1 # k) (b, x @ rest, cp) \<noteq> None"
      by (rule Alt.IH(1)[OF af(1) 1 Alt.prems(3)])
    then show ?thesis by auto
  next
    case 2
    have "run ic (R r2 # k) (b, x @ rest, cp) \<noteq> None"
      by (rule Alt.IH(2)[OF af(2) 2 Alt.prems(3)])
    then show ?thesis by (cases "run ic (R r1 # k) (b, x @ rest, cp)") auto
  qed
next
  case (Star cl)
  from Star.prems(2) have "list_all (cls_ok ic cl) x" by simp
  from run_Star_complete[OF this Star.prems(3)] show ?case .
next
  case (Group n r)
  from Group.prems have af: "anchor_free r" and x: "x \<in> lang ic r" by auto
  have "run ic (Close n (x @ rest) # k) (b', rest, cp') \<noteq> None" for b' cp'
    using Group.prems(3) by simp
  from Group.IH[OF af x this] show ?case by simp
next
  case Bol
  then show ?case by simp
next
  case Eol
  then show ?case by simp
next
  case Eps
  then show ?case by simp
qed

lemma match_here_complete:
  assumes "anchor_free r" and "x \<in> lang ic r"
  shows "match_here ic r b (x @ rest) \<noteq> None"
proof -
  have "run ic (R r # []) (b, x @ rest, []) \<noteq> None"
    by (rule run_complete[OF assms]) simp
  then show ?thesis by (auto simp: match_here_def)
qed

lemma anchor_free_str: "anchor_free (str p)"
  by (induction p) auto

lemma anchor_free_csp_meta_re: "anchor_free csp_meta_re"
  by (simp add: csp_meta_re_def anchor_free_str)

lemma split_at_first:
  "c \<notin> set v \<Longrightarrow> c \<notin> set t \<Longrightarrow> v @ c # rest = t @ c # post \<Longrightarrow> v = t \<and> rest = post"
proof (induction v arbitrary: t)
  case Nil
  then show ?case by (cases t) auto
next
  case (Cons a v)
  then show ?case by (cases t) auto
qed

lemma first_gt_unique:
  assumes "pre @ t @ CHR ''>'' # post = y @ CHR ''>'' # rest"
    and "CHR ''>'' \<notin> set t" and "CHR ''>'' \<notin> set y" and "length pre \<le> length y"
  shows "y = pre @ t \<and> rest = post"
proof -
  from assms(1) have "take (length pre) (pre @ t @ CHR ''>'' # post)
                        = take (length pre) (y @ CHR ''>'' # rest)" by simp
  with assms(4) have "pre = take (length pre) y" by simp
  then have "y = pre @ drop (length pre) y" by (metis append_take_drop_id)
  then obtain v where v1: "y = pre @ v" ..
  with assms(1) have v2: "v @ CHR ''>'' # rest = t @ CHR ''>'' # post" by simp
  note v = v1 v2
  from v(1) assms(3) have "CHR ''>'' \<notin> set v" by simp
  from this assms(2) v(2) have "v = t \<and> rest = post" by (rule split_at_first)
  with v(1) show ?thesis by simp
qed

lemma csp_tag_covered:
  assumes tag: "tag \<in> lang True csp_meta_re"
  shows "\<exists>A m cp B u. segments True csp_meta_re b (pre @ tag @ post) = A @ Hit m cp # B
           \<and> pre = concat (map seg_text A) @ u \<and> m = u @ tag \<and> post = concat (map seg_text B)"
proof (induction pre arbitrary: b rule: length_induct)
  case (1 pre)
  have IH: "\<And>p b'. length p < length pre \<Longrightarrow>
      \<exists>A m cp B u. segments True csp_meta_re b' (p @ tag @ post) = A @ Hit m cp # B
           \<and> p = concat (map seg_text A) @ u \<and> m = u @ tag \<and> post = concat (map seg_text B)"
    using 1 by blast
  let ?s = "pre @ tag @ post"
  from csp_tag_shape[OF tag] obtain t where t: "tag = t @ ''>''" "CHR ''>'' \<notin> set t" by blast
  show ?case
  proof (cases "match_here True csp_meta_re b ?s")
    case None
    have "pre \<noteq> []"
    proof
      assume "pre = []"
      with match_here_complete[OF anchor_free_csp_meta_re tag, of b post] None show False by simp
    qed
    then obtain c pre' where pre: "pre = c # pre'" by (cases pre) auto
    from IH[of pre' False] pre obtain A m cp B u where
      a: "segments True csp_meta_re False (pre' @ tag @ post) = A @ Hit m cp # B"
         "pre' = concat (map seg_text A) @ u" "m = u @ tag" "post = concat (map seg_text B)"
      by auto
    from segments_None[OF None] pre a(1)
    have "segments True csp_meta_re b ?s = (Keep c # A) @ Hit m cp # B" by simp
    moreover from pre a(2) have "pre = concat (map seg_text (Keep c # A)) @ u" by simp
    ultimately show ?thesis using a(3,4) by blast
  next
    case (Some p)
    obtain rest cp where p: "p = (rest, cp)" by (cases p)
    from match_here_sound Some p obtain x where x: "?s = x @ rest" "x \<in> lang True csp_meta_re"
      by blast
    from csp_tag_shape[OF x(2)] obtain y where y: "x = y @ ''>''" "CHR ''>'' \<notin> set y" by blast
    from x(1) y(1) have shorter: "length rest < length ?s"
      by (metis add_diff_cancel_right' append_is_Nil_conv length_append length_greater_0_conv
            less_add_same_cancel2 list.distinct(1) zero_less_diff)
    from x(1) have "take (length ?s - length rest) ?s = x" by (simp add: x(1))
    with segments_Some[OF Some[unfolded p] shorter]
    have seg: "segments True csp_meta_re b ?s = Hit x cp # segments True csp_meta_re False rest"
      by simp
    show ?thesis
    proof (cases "length pre < length x")
      case True
      with y(1) have "length pre \<le> length y" by simp
      moreover from x(1) t(1) y(1) have "pre @ t @ CHR ''>'' # post = y @ CHR ''>'' # rest" by simp
      ultimately have "y = pre @ t \<and> rest = post" using t(2) y(2) by (intro first_gt_unique)
      with y(1) t(1) have "x = pre @ tag" "rest = post" by simp_all
      with seg have "segments True csp_meta_re b ?s
                       = [] @ Hit x cp # segments True csp_meta_re False post
          \<and> pre = concat (map seg_text []) @ pre \<and> x = pre @ tag
          \<and> post = concat (map seg_text (segments True csp_meta_re False post))"
        by (simp add: segments_text)
      then show ?thesis by blast
    next
      case False
      with x(1) obtain pre' where pre': "pre = x @ pre'" "rest = pre' @ tag @ post"
        by (auto simp: append_eq_append_conv2)
      from y(1) pre'(1) have "length pre' < length pre" by simp
      from IH[OF this, of False] obtain A m cp' B u where
        a: "segments True csp_meta_re False (pre' @ tag @ post) = A @ Hit m cp' # B"
           "pre' = concat (map seg_text A) @ u" "m = u @ tag" "post = concat (map seg_text B)"
        by auto
      from seg pre'(2) a(1)
      have "segments True csp_meta_re b ?s = (Hit x cp # A) @ Hit m cp' # B" by simp
      moreover from pre'(1) a(2) have "pre = concat (map seg_text (Hit x cp # A)) @ u" by simp
      ultimately show ?thesis using a(3,4) by blast
    qed
  qed
qed

section \<open>Properties of the string functions\<close>

lemma js_includes_iff: "js_includes s x \<longleftrightarrow> (\<exists>a b. s = a @ x @ b)"
proof (induction s)
  case Nil
  then show ?case by auto
next
  case (Cons c cs)
  show ?case
  proof
    assume "js_includes (c # cs) x"
    then consider "startsWith (c # cs) x" | "js_includes cs x" by (auto split: if_splits)
    then show "\<exists>a b. c # cs = a @ x @ b"
    proof cases
      case 1
      then have "c # cs = [] @ x @ drop (length x) (c # cs)"
        unfolding startsWith_def by (metis append_Nil append_take_drop_id)
      then show ?thesis by blast
    next
      case 2
      with Cons.IH obtain a b where "cs = a @ x @ b" by blast
      then have "c # cs = (c # a) @ x @ b" by simp
      then show ?thesis by blast
    qed
  next
    assume "\<exists>a b. c # cs = a @ x @ b"
    then obtain a b where ab: "c # cs = a @ x @ b" by blast
    show "js_includes (c # cs) x"
    proof (cases a)
      case Nil
      with ab have "startsWith (c # cs) x" by (simp add: startsWith_def)
      then show ?thesis by simp
    next
      case (Cons a1 as)
      with ab have "cs = as @ x @ b" by simp
      with Cons.IH have "js_includes cs x" by blast
      then show ?thesis by simp
    qed
  qed
qed

lemma endsWith_iff: "endsWith s x \<longleftrightarrow> (\<exists>p. s = p @ x)"
proof
  assume "endsWith s x"
  then have "s = take (length s - length x) s @ x"
    unfolding endsWith_def by (metis append_take_drop_id)
  then show "\<exists>p. s = p @ x" ..
next
  assume "\<exists>p. s = p @ x"
  then show "endsWith s x" by (auto simp: endsWith_def)
qed

lemma allowlist_ok_iff:
  "allowlist_ok al h \<longleftrightarrow> (\<exists>a\<in>set al. h = a \<or> (\<exists>sub. h = sub @ ''.'' @ a))"
  unfolding allowlist_ok_def list_ex_iff endsWith_iff by auto



lemma rewrite_html_needs_backslash:
  assumes "remove_csp_meta html = html" and "BSL \<notin> set html"
  shows "rewrite_html pf req target html = html"
  using assms
  by (simp add: rewrite_html_def rewrite_attrs_needs_backslash rewrite_srcsets_needs_backslash)

lemma whole_match_in_lang:
  "match_here ic r b s = Some ([], cp) \<Longrightarrow> s \<in> lang ic r"
  using match_here_sound[of ic r b s "[]" cp] by auto

section \<open>Matches of different patterns do not overlap\<close>


















section \<open>The meta tags and the pattern of line 51\<close>

lemma lang_catsI:
  "x \<in> lang ic r \<Longrightarrow> y \<in> lang ic (cats rs) \<Longrightarrow> x @ y \<in> lang ic (cats (r # rs))"
  by auto

lemma lang_Star_NoneOf_I:
  assumes "c \<notin> set w" and "\<not> letter c"
  shows "w \<in> lang ic (Star (NoneOf [c]))"
proof -
  have "cls_ok ic (NoneOf [c]) d" if "d \<in> set w" for d
  proof -
    from that assms(1) have "c \<noteq> d" by auto
    with assms(2) have "\<not> same_char ic c d" using same_char_nonletter_pattern[of ic c d] by blast
    then show ?thesis by simp
  qed
  then show ?thesis by (simp add: list_all_iff)
qed

lemma lang_quote_I:
  "q = CHR 0x22 \<or> q = CHR 0x27 \<Longrightarrow> [q] \<in> lang ic (Atom (OneOf [CHR 0x22, CHR 0x27]))"
  by (auto simp: same_char_refl)

lemma lang_quote_D:
  assumes "w \<in> lang ic (Atom (OneOf [CHR 0x22, CHR 0x27]))"
  obtains q where "w = [q]" and "q = CHR 0x22 \<or> q = CHR 0x27"
proof -
  from assms obtain c where c: "w = [c]"
    and "same_char ic (CHR 0x22) c \<or> same_char ic (CHR 0x27) c" by auto
  then have "c = CHR 0x22 \<or> c = CHR 0x27"
    using same_char_nonletter_pattern[of ic "CHR 0x22" c]
          same_char_nonletter_pattern[of ic "CHR 0x27" c] not_letter by blast
  with c that show ?thesis by blast
qed

lemma is_csp_meta_tag_iff: "is_csp_meta_tag w \<longleftrightarrow> w \<in> lang True csp_meta_re"
proof
  assume "is_csp_meta_tag w"
  then obtain a b c q1 d q2 e where w: "w = a @ b @ c @ [q1] @ d @ [q2] @ e @ ''>''"
    and a: "list_all2 (same_char True) ''<meta'' a" and b: "CHR ''>'' \<notin> set b"
    and c: "list_all2 (same_char True) ''http-equiv='' c"
    and q1: "q1 = CHR 0x22 \<or> q1 = CHR 0x27"
    and d: "list_all2 (same_char True) ''Content-Security-Policy'' d"
    and q2: "q2 = CHR 0x22 \<or> q2 = CHR 0x27" and e: "CHR ''>'' \<notin> set e"
    unfolding is_csp_meta_tag_def by blast
  have 8: "''>'' \<in> lang True (cats [str ''>''])" by (simp add: same_char_refl)
  have 7: "e @ ''>'' \<in> lang True (cats [Star (NoneOf ''>''), str ''>''])"
    by (rule lang_catsI[OF lang_Star_NoneOf_I[OF e not_letter(1)] 8])
  have 6: "[q2] @ e @ ''>'' \<in> lang True (cats [Atom (OneOf [CHR 0x22, CHR 0x27]),
             Star (NoneOf ''>''), str ''>''])"
    by (rule lang_catsI[OF lang_quote_I[OF q2] 7])
  have 5: "d @ [q2] @ e @ ''>'' \<in> lang True (cats [str ''Content-Security-Policy'',
             Atom (OneOf [CHR 0x22, CHR 0x27]), Star (NoneOf ''>''), str ''>''])"
    by (rule lang_catsI[OF d[folded lang_str_iff] 6])
  have 4: "[q1] @ d @ [q2] @ e @ ''>'' \<in> lang True (cats [Atom (OneOf [CHR 0x22, CHR 0x27]),
             str ''Content-Security-Policy'',
             Atom (OneOf [CHR 0x22, CHR 0x27]), Star (NoneOf ''>''), str ''>''])"
    by (rule lang_catsI[OF lang_quote_I[OF q1] 5])
  have 3: "c @ [q1] @ d @ [q2] @ e @ ''>'' \<in> lang True (cats [str ''http-equiv='',
             Atom (OneOf [CHR 0x22, CHR 0x27]), str ''Content-Security-Policy'',
             Atom (OneOf [CHR 0x22, CHR 0x27]), Star (NoneOf ''>''), str ''>''])"
    by (rule lang_catsI[OF c[folded lang_str_iff] 4])
  have 2: "b @ c @ [q1] @ d @ [q2] @ e @ ''>'' \<in> lang True (cats [Star (NoneOf ''>''),
             str ''http-equiv='',
             Atom (OneOf [CHR 0x22, CHR 0x27]), str ''Content-Security-Policy'',
             Atom (OneOf [CHR 0x22, CHR 0x27]), Star (NoneOf ''>''), str ''>''])"
    by (rule lang_catsI[OF lang_Star_NoneOf_I[OF b not_letter(1)] 3])
  have 1: "a @ b @ c @ [q1] @ d @ [q2] @ e @ ''>'' \<in> lang True (cats [str ''<meta'',
             Star (NoneOf ''>''), str ''http-equiv='',
             Atom (OneOf [CHR 0x22, CHR 0x27]), str ''Content-Security-Policy'',
             Atom (OneOf [CHR 0x22, CHR 0x27]), Star (NoneOf ''>''), str ''>''])"
    by (rule lang_catsI[OF a[folded lang_str_iff] 2])
  with w show "w \<in> lang True csp_meta_re" by (simp only: csp_meta_re_def)
next
  assume "w \<in> lang True csp_meta_re"
  from this[unfolded csp_meta_re_def] obtain x1 y1 where 1: "w = x1 @ y1"
    "x1 \<in> lang True (str ''<meta'')" and "y1 \<in> lang True (cats [Star (NoneOf ''>''), str ''http-equiv='',
           Atom (OneOf [CHR 0x22, CHR 0x27]), str ''Content-Security-Policy'',
           Atom (OneOf [CHR 0x22, CHR 0x27]), Star (NoneOf ''>''), str ''>''])"
    by (rule lang_catsE)
  from this(3) obtain x2 y2 where 2: "y1 = x2 @ y2" "x2 \<in> lang True (Star (NoneOf ''>''))"
    and "y2 \<in> lang True (cats [str ''http-equiv='',
           Atom (OneOf [CHR 0x22, CHR 0x27]), str ''Content-Security-Policy'',
           Atom (OneOf [CHR 0x22, CHR 0x27]), Star (NoneOf ''>''), str ''>''])"
    by (rule lang_catsE)
  from this(3) obtain x3 y3 where 3: "y2 = x3 @ y3" "x3 \<in> lang True (str ''http-equiv='')"
    and "y3 \<in> lang True (cats [Atom (OneOf [CHR 0x22, CHR 0x27]), str ''Content-Security-Policy'',
           Atom (OneOf [CHR 0x22, CHR 0x27]), Star (NoneOf ''>''), str ''>''])"
    by (rule lang_catsE)
  from this(3) obtain x4 y4 where 4: "y3 = x4 @ y4" "x4 \<in> lang True (Atom (OneOf [CHR 0x22, CHR 0x27]))"
    and "y4 \<in> lang True (cats [str ''Content-Security-Policy'',
           Atom (OneOf [CHR 0x22, CHR 0x27]), Star (NoneOf ''>''), str ''>''])"
    by (rule lang_catsE)
  from this(3) obtain x5 y5 where 5: "y4 = x5 @ y5" "x5 \<in> lang True (str ''Content-Security-Policy'')"
    and "y5 \<in> lang True (cats [Atom (OneOf [CHR 0x22, CHR 0x27]), Star (NoneOf ''>''), str ''>''])"
    by (rule lang_catsE)
  from this(3) obtain x6 y6 where 6: "y5 = x6 @ y6" "x6 \<in> lang True (Atom (OneOf [CHR 0x22, CHR 0x27]))"
    and "y6 \<in> lang True (cats [Star (NoneOf ''>''), str ''>''])"
    by (rule lang_catsE)
  from this(3) obtain x7 y7 where 7: "y6 = x7 @ y7" "x7 \<in> lang True (Star (NoneOf ''>''))"
    and "y7 \<in> lang True (cats [str ''>''])"
    by (rule lang_catsE)
  from this(3) have 8: "y7 = ''>''" unfolding cats.simps str.simps lang_Cat_Atom
    by (auto dest: same_char_nonletter_pattern simp: not_letter)
  from 4(2) obtain q1 where q1: "x4 = [q1]" "q1 = CHR 0x22 \<or> q1 = CHR 0x27" by (rule lang_quote_D)
  from 6(2) obtain q2 where q2: "x6 = [q2]" "q2 = CHR 0x22 \<or> q2 = CHR 0x27" by (rule lang_quote_D)
  have b: "CHR ''>'' \<notin> set x2" by (rule lang_Star_avoids[OF 2(2)]) simp
  have e: "CHR ''>'' \<notin> set x7" by (rule lang_Star_avoids[OF 7(2)]) simp
  from 1 2 3 4 5 6 7 8 q1 q2 have "w = x1 @ x2 @ x3 @ [q1] @ x5 @ [q2] @ x7 @ ''>''" by simp
  with 1(2)[unfolded lang_str_iff] 3(2)[unfolded lang_str_iff] 5(2)[unfolded lang_str_iff]
    b e q1(2) q2(2)
  show "is_csp_meta_tag w" unfolding is_csp_meta_tag_def by blast
qed

section \<open>The replacement functions on a failed resolution\<close>




section \<open>Properties of the handler\<close>

text \<open>
  Claim C10.  With a non-empty \<^verbatim>\<open>API_KEY\<close> configured, a request for some target that has
  no \<^verbatim>\<open>x-api-key\<close> header is answered with the 401 response, the same as a request with a
  wrong key; with no key configured (the variable unset or empty) the check passes and
  the header has no effect on the outcome of the validation.
\<close>

theorem missing_api_key_rejected:
  "(truthy (targetUrl req) \<and> API_KEY env = Some k \<and> k \<noteq> [] \<and> x_api_key req = None
      \<longrightarrow> validate pf env req
            = Inl (plain 401 (''Unauthorized '' @ [CHR 0xE2, CHR 0x80, CHR 0x94] @ '' invalid API key'')))
   \<and> (truthy (targetUrl req) \<and> API_KEY env = Some k \<and> k \<noteq> [] \<and> x_api_key req = Some w \<and> w \<noteq> k
      \<longrightarrow> validate pf env req
            = Inl (plain 401 (''Unauthorized '' @ [CHR 0xE2, CHR 0x80, CHR 0x94] @ '' invalid API key'')))
   \<and> (API_KEY env = None \<or> API_KEY env = Some []
      \<longrightarrow> \<not> unauthorized env req
          \<and> validate pf env (req\<lparr>x_api_key := h\<rparr>) = validate pf env req)"
  by (auto simp: validate_def unauthorized_def api_key_of_def provided_def targetUrl_def
           split: option.splits)

theorem missing_api_key_rejected_witness:
  "validate (sample_platform ''text/html'') \<lparr>API_KEY = Some ''s3cret'', ALLOWLIST = None\<rparr>
      (sample_request ''https://example.com/'' None)
     = Inl (plain 401 (''Unauthorized '' @ [CHR 0xE2, CHR 0x80, CHR 0x94] @ '' invalid API key''))
   \<and> validate (sample_platform ''text/html'') \<lparr>API_KEY = Some ''s3cret'', ALLOWLIST = None\<rparr>
      (sample_request ''https://example.com/'' (Some ''guess''))
     = Inl (plain 401 (''Unauthorized '' @ [CHR 0xE2, CHR 0x80, CHR 0x94] @ '' invalid API key''))
   \<and> validate (sample_platform ''text/html'') \<lparr>API_KEY = None, ALLOWLIST = None\<rparr>
      ((sample_request ''https://example.com/'' None)\<lparr>x_api_key := Some ''anything''\<rparr>)
     = validate (sample_platform ''text/html'') \<lparr>API_KEY = None, ALLOWLIST = None\<rparr>
      (sample_request ''https://example.com/'' None)"
  using missing_api_key_rejected[where req = "sample_request ''https://example.com/'' None"
          and env = "\<lparr>API_KEY = Some ''s3cret'', ALLOWLIST = None\<rparr>" and k = "''s3cret''"
          and pf = "sample_platform ''text/html''"]
        missing_api_key_rejected[where req = "sample_request ''https://example.com/'' (Some ''guess'')"
          and env = "\<lparr>API_KEY = Some ''s3cret'', ALLOWLIST = None\<rparr>" and k = "''s3cret''"
          and w = "''guess''" and pf = "sample_platform ''text/html''"]
        missing_api_key_rejected[where req = "sample_request ''https://example.com/'' None"
          and env = "\<lparr>API_KEY = None, ALLOWLIST = None\<rparr>" and h = "Some ''anything''"
          and pf = "sample_platform ''text/html''"]
  by (simp add: sample_request_def targetUrl_def)

text \<open>
  Claim C6.  The validation applies its gates in the order presence of the target, API
  key, parsing of the URL, scheme, host screening (host name, then address range) and
  allowlist.  A gate decides only when every gate before it has passed, and then its
  fixed response is the outcome whatever the later gates would say; when all pass, the
  parsed URL goes on to be fetched.
\<close>

theorem gates_in_order:
  "(\<not> truthy (targetUrl req) \<longrightarrow>
      validate pf env req
        = Inl (plain 400 (''Missing '' @ [CHR 0x22] @ ''url'' @ [CHR 0x22] @ '' query parameter'')))
   \<and> (truthy (targetUrl req) \<longrightarrow>
        (unauthorized env req \<longrightarrow>
           validate pf env req
             = Inl (plain 401 (''Unauthorized '' @ [CHR 0xE2, CHR 0x80, CHR 0x94] @ '' invalid API key'')))
      \<and> (\<not> unauthorized env req \<longrightarrow> targetUrl req = Some tu \<longrightarrow>
           (URL_parse pf (to_string tu) = None \<longrightarrow>
              validate pf env req = Inl (plain 400 ''Invalid URL''))
         \<and> (URL_parse pf (to_string tu) = Some target \<longrightarrow>
              (protocol target \<noteq> ''http:'' \<and> protocol target \<noteq> ''https:'' \<longrightarrow>
                 validate pf env req = Inl (plain 400 ''Only http/https allowed''))
            \<and> (protocol target = ''http:'' \<or> protocol target = ''https:'' \<longrightarrow>
                 (forbidden_host (hostname target) \<longrightarrow>
                    validate pf env req = Inl (plain 403 ''Forbidden host''))
               \<and> (\<not> forbidden_host (hostname target) \<longrightarrow>
                    (forbidden_ip_range (Number pf) (hostname target) \<longrightarrow>
                       validate pf env req = Inl (plain 403 ''Forbidden IP range''))
                  \<and> (\<not> forbidden_ip_range (Number pf) (hostname target) \<longrightarrow>
                       (allowlist env \<noteq> [] \<and> \<not> allowlist_ok (allowlist env) (hostname target) \<longrightarrow>
                          validate pf env req = Inl (plain 403 ''Host not allowed by allowlist''))
                     \<and> (allowlist env = [] \<or> allowlist_ok (allowlist env) (hostname target) \<longrightarrow>
                          validate pf env req = Inr target)))))))"
  by (cases "targetUrl req") (auto simp: validate_def Let_def)

theorem gates_in_order_witness:
  "validate (sample_platform ''text/html'') \<lparr>API_KEY = Some ''s3cret'', ALLOWLIST = Some ''example.com''\<rparr>
      \<lparr>query_url = Some (QStr []), x_target_url = None, x_api_key = Some ''guess'',
       req_protocol = None, req_host = Some ''p.test''\<rparr>
     = Inl (plain 400 (''Missing '' @ [CHR 0x22] @ ''url'' @ [CHR 0x22] @ '' query parameter''))
   \<and> validate (sample_platform ''text/html'') \<lparr>API_KEY = Some ''s3cret'', ALLOWLIST = Some ''example.com''\<rparr>
      (sample_request ''not a url'' (Some ''guess''))
     = Inl (plain 401 (''Unauthorized '' @ [CHR 0xE2, CHR 0x80, CHR 0x94] @ '' invalid API key''))
   \<and> validate (sample_platform ''text/html'') \<lparr>API_KEY = Some ''s3cret'', ALLOWLIST = Some ''example.com''\<rparr>
      (sample_request ''not a url'' (Some ''s3cret''))
     = Inl (plain 400 ''Invalid URL'')
   \<and> validate (sample_platform ''text/html'') \<lparr>API_KEY = None, ALLOWLIST = Some ''example.org''\<rparr>
      (sample_request ''ftp://example.com/'' None)
     = Inl (plain 400 ''Only http/https allowed'')
   \<and> validate (sample_platform ''text/html'') \<lparr>API_KEY = None, ALLOWLIST = Some ''example.com''\<rparr>
      (sample_request ''http://localhost/'' None)
     = Inl (plain 403 ''Forbidden host'')
   \<and> validate (sample_platform ''text/html'') \<lparr>API_KEY = None, ALLOWLIST = Some ''example.com''\<rparr>
      (sample_request ''https://evil.com/'' None)
     = Inl (plain 403 ''Host not allowed by allowlist'')
   \<and> validate (sample_platform ''text/html'') \<lparr>API_KEY = None, ALLOWLIST = Some ''example.com''\<rparr>
      (sample_request ''https://example.com/'' None)
     = Inr \<lparr>protocol = ''https:'', hostname = ''example.com'', href = ''https://example.com/''\<rparr>"
proof -
  let ?pf = "sample_platform ''text/html''"
  let ?keyed = "\<lparr>API_KEY = Some ''s3cret'', ALLOWLIST = Some ''example.com''\<rparr>"
  let ?listed = "\<lparr>API_KEY = None, ALLOWLIST = Some ''example.com''\<rparr>"
  have h1: "forbidden_host ''localhost''" by code_simp
  have h2: "\<not> forbidden_host ''evil.com''" "\<not> forbidden_host ''example.com''" by code_simp+
  have h3: "\<not> forbidden_ip_range sample_number ''evil.com''"
    "\<not> forbidden_ip_range sample_number ''example.com''" by code_simp+
  have h4: "allowlist ?listed = [''example.com'']" by code_simp
  have h5: "\<not> allowlist_ok [''example.com''] ''evil.com''"
    "allowlist_ok [''example.com''] ''example.com''" by code_simp+
  note defs = sample_request_def sample_platform_def sample_parse_def targetUrl_def
    unauthorized_def api_key_of_def provided_def
  show ?thesis
    using gates_in_order[where pf = ?pf and env = ?keyed
            and req = "\<lparr>query_url = Some (QStr []), x_target_url = None, x_api_key = Some ''guess'',
                        req_protocol = None, req_host = Some ''p.test''\<rparr>"]
          gates_in_order[where pf = ?pf and env = ?keyed
            and req = "sample_request ''not a url'' (Some ''guess'')"]
          gates_in_order[where pf = ?pf and env = ?keyed
            and req = "sample_request ''not a url'' (Some ''s3cret'')" and tu = "QStr ''not a url''"]
          gates_in_order[where pf = ?pf and env = "\<lparr>API_KEY = None, ALLOWLIST = Some ''example.org''\<rparr>"
            and req = "sample_request ''ftp://example.com/'' None" and tu = "QStr ''ftp://example.com/''"
            and target = "\<lparr>protocol = ''ftp:'', hostname = ''example.com'', href = ''ftp://example.com/''\<rparr>"]
          gates_in_order[where pf = ?pf and env = ?listed
            and req = "sample_request ''http://localhost/'' None" and tu = "QStr ''http://localhost/''"
            and target = "\<lparr>protocol = ''http:'', hostname = ''localhost'', href = ''http://localhost/''\<rparr>"]
          gates_in_order[where pf = ?pf and env = ?listed
            and req = "sample_request ''https://evil.com/'' None" and tu = "QStr ''https://evil.com/''"
            and target = "\<lparr>protocol = ''https:'', hostname = ''evil.com'', href = ''https://evil.com/''\<rparr>"]
          gates_in_order[where pf = ?pf and env = ?listed
            and req = "sample_request ''https://example.com/'' None" and tu = "QStr ''https://example.com/''"
            and target = "\<lparr>protocol = ''https:'', hostname = ''example.com'', href = ''https://example.com/''\<rparr>"]
          h1 h2 h3 h4 h5
    by (simp add: defs)
qed

text \<open>
  Claim C5.  For a request that has passed the gates before the allowlist: the
  validation lets the target through exactly when the allowlist is empty or the host
  name equals one of its entries or ends with a dot followed by one of them, and
  otherwise answers 403 with the allowlist message.  The witness runs the allowlist
  \<^verbatim>\<open>example.com\<close> on the hosts \<^verbatim>\<open>example.com\<close>, \<^verbatim>\<open>api.example.com\<close> and \<^verbatim>\<open>evil.com\<close>, and an
  unset allowlist on \<^verbatim>\<open>evil.com\<close>.
\<close>

theorem allowlist_gate:
  assumes "truthy (targetUrl req)" and "targetUrl req = Some tu" and "\<not> unauthorized env req"
    and "URL_parse pf (to_string tu) = Some target"
    and "protocol target = ''http:'' \<or> protocol target = ''https:''"
    and "\<not> forbidden_host (hostname target)"
    and "\<not> forbidden_ip_range (Number pf) (hostname target)"
  shows "validate pf env req =
           (if allowlist env = []
               \<or> (\<exists>a\<in>set (allowlist env). hostname target = a \<or> (\<exists>sub. hostname target = sub @ ''.'' @ a))
            then Inr target
            else Inl (plain 403 ''Host not allowed by allowlist''))"
  using assms unfolding allowlist_ok_iff[symmetric] by (auto simp: validate_def Let_def)

theorem allowlist_gate_witness:
  "validate (sample_platform ''text/html'') \<lparr>API_KEY = None, ALLOWLIST = Some ''example.com''\<rparr>
      (sample_request ''https://example.com/'' None)
     = Inr \<lparr>protocol = ''https:'', hostname = ''example.com'', href = ''https://example.com/''\<rparr>
   \<and> validate (sample_platform ''text/html'') \<lparr>API_KEY = None, ALLOWLIST = Some ''example.com''\<rparr>
      (sample_request ''https://api.example.com/'' None)
     = Inr \<lparr>protocol = ''https:'', hostname = ''api.example.com'', href = ''https://api.example.com/''\<rparr>
   \<and> validate (sample_platform ''text/html'') \<lparr>API_KEY = None, ALLOWLIST = Some ''example.com''\<rparr>
      (sample_request ''https://evil.com/'' None)
     = Inl (plain 403 ''Host not allowed by allowlist'')
   \<and> validate (sample_platform ''text/html'') \<lparr>API_KEY = None, ALLOWLIST = None\<rparr>
      (sample_request ''https://evil.com/'' None)
     = Inr \<lparr>protocol = ''https:'', hostname = ''evil.com'', href = ''https://evil.com/''\<rparr>"
proof -
  let ?pf = "sample_platform ''text/html''"
  let ?listed = "\<lparr>API_KEY = None, ALLOWLIST = Some ''example.com''\<rparr>"
  let ?open = "\<lparr>API_KEY = None, ALLOWLIST = None\<rparr>"
  have h2: "\<not> forbidden_host ''evil.com''" "\<not> forbidden_host ''example.com''"
    "\<not> forbidden_host ''api.example.com''" by code_simp+
  have h3: "\<not> forbidden_ip_range sample_number ''evil.com''"
    "\<not> forbidden_ip_range sample_number ''example.com''"
    "\<not> forbidden_ip_range sample_number ''api.example.com''" by code_simp+
  have h4: "allowlist ?listed = [''example.com'']" "allowlist ?open = []" by code_simp+
  have h5: "\<not> allowlist_ok [''example.com''] ''evil.com''"
    "allowlist_ok [''example.com''] ''example.com''"
    "allowlist_ok [''example.com''] ''api.example.com''" by code_simp+
  note h6 = h5[unfolded allowlist_ok_iff]
  note defs = sample_request_def sample_platform_def sample_parse_def targetUrl_def
    unauthorized_def api_key_of_def provided_def
  have a: "validate ?pf ?listed (sample_request ''https://example.com/'' None)
     = Inr \<lparr>protocol = ''https:'', hostname = ''example.com'', href = ''https://example.com/''\<rparr>"
    using allowlist_gate[where pf = ?pf and env = ?listed
            and req = "sample_request ''https://example.com/'' None" and tu = "QStr ''https://example.com/''"
            and target = "\<lparr>protocol = ''https:'', hostname = ''example.com'', href = ''https://example.com/''\<rparr>"]
          h2 h3 h4 h6
    by (simp add: defs)
  have b: "validate ?pf ?listed (sample_request ''https://api.example.com/'' None)
     = Inr \<lparr>protocol = ''https:'', hostname = ''api.example.com'', href = ''https://api.example.com/''\<rparr>"
    using allowlist_gate[where pf = ?pf and env = ?listed
            and req = "sample_request ''https://api.example.com/'' None" and tu = "QStr ''https://api.example.com/''"
            and target = "\<lparr>protocol = ''https:'', hostname = ''api.example.com'', href = ''https://api.example.com/''\<rparr>"]
          h2 h3 h4 h6
    by (simp add: defs)
  have c: "validate ?pf ?listed (sample_request ''https://evil.com/'' None)
     = Inl (plain 403 ''Host not allowed by allowlist'')"
    using allowlist_gate[where pf = ?pf and env = ?listed
            and req = "sample_request ''https://evil.com/'' None" and tu = "QStr ''https://evil.com/''"
            and target = "\<lparr>protocol = ''https:'', hostname = ''evil.com'', href = ''https://evil.com/''\<rparr>"]
          h2 h3 h4 h6
    by (simp add: defs)
  have d: "validate ?pf ?open (sample_request ''https://evil.com/'' None)
     = Inr \<lparr>protocol = ''https:'', hostname = ''evil.com'', href = ''https://evil.com/''\<rparr>"
    using allowlist_gate[where pf = ?pf and env = ?open
            and req = "sample_request ''https://evil.com/'' None" and tu = "QStr ''https://evil.com/''"
            and target = "\<lparr>protocol = ''https:'', hostname = ''evil.com'', href = ''https://evil.com/''\<rparr>"]
          h2 h3 h4
    by (simp add: defs)
  from a b c d show ?thesis by blast
qed

text \<open>
  Claim C7.  For a request that passed the validation and whose fetch returned: when
  the upstream content type contains \<^verbatim>\<open>text/html\<close>, the response has status 200, the
  content type \<^verbatim>\<open>text/html; charset=utf-8\<close>, the header
  \<^verbatim>\<open>Content-Security-Policy: frame-ancestors *\<close> and the rewritten text as its body;
  otherwise it has the upstream status, the upstream content type as its only header
  (no header when the upstream has none or an empty one) and the upstream bytes,
  untouched, as its body.
\<close>

theorem response_by_content_type:
  assumes "validate pf env req = Inr target" and "fetch pf (href target) = Inr up"
  shows "((\<exists>a b. up_content_type up = Some (a @ ''text/html'' @ b)) \<longrightarrow>
            handler pf env req
              = \<lparr>status = 200,
                 headers = [(''content-type'', ''text/html; charset=utf-8''),
                            (''Content-Security-Policy'', ''frame-ancestors *'')],
                 body = Text (rewrite_html pf req target (up_text up))\<rparr>)
       \<and> (\<not> (\<exists>a b. up_content_type up = Some (a @ ''text/html'' @ b)) \<longrightarrow>
            handler pf env req
              = \<lparr>status = up_status up,
                 headers = (case up_content_type up of
                              None \<Rightarrow> []
                            | Some ct \<Rightarrow> if ct = [] then [] else [(''content-type'', ct)]),
                 body = Bytes (up_bytes up)\<rparr>)"
proof -
  let ?ct = "case up_content_type up of Some c \<Rightarrow> c | None \<Rightarrow> []"
  have "(\<exists>a b. up_content_type up = Some (a @ ''text/html'' @ b)) \<longleftrightarrow> js_includes ?ct ''text/html''"
    by (cases "up_content_type up") (auto simp: js_includes_iff)
  with assms show ?thesis
    by (cases "up_content_type up") (auto simp: handler_def Let_def)
qed

theorem response_by_content_type_witness:
  "handler (sample_platform ''text/html; charset=ISO-8859-1'') \<lparr>API_KEY = None, ALLOWLIST = None\<rparr>
      (sample_request ''https://example.com/'' None)
     = \<lparr>status = 200,
        headers = [(''content-type'', ''text/html; charset=utf-8''),
                   (''Content-Security-Policy'', ''frame-ancestors *'')],
        body = Text ''<p>hi</p>''\<rparr>
   \<and> handler (sample_platform ''image/png'') \<lparr>API_KEY = None, ALLOWLIST = None\<rparr>
      (sample_request ''https://example.com/'' None)
     = \<lparr>status = 404, headers = [(''content-type'', ''image/png'')], body = Bytes [0x3C, 0x70, 0x3E, 0x68, 0x69, 0x3C, 0x2F, 0x70, 0x3E]\<rparr>"
proof -
  let ?env = "\<lparr>API_KEY = None, ALLOWLIST = None\<rparr>"
  let ?req = "sample_request ''https://example.com/'' None"
  let ?target = "\<lparr>protocol = ''https:'', hostname = ''example.com'', href = ''https://example.com/''\<rparr>"
  have v: "validate (sample_platform ct) ?env ?req = Inr ?target" for ct
  proof -
    have "\<not> forbidden_host ''example.com''" "\<not> forbidden_ip_range sample_number ''example.com''"
      "allowlist ?env = []" by code_simp+
    then show ?thesis
      by (simp add: validate_def sample_request_def sample_platform_def sample_parse_def
            targetUrl_def unauthorized_def api_key_of_def provided_def)
  qed
  have f: "fetch (sample_platform ct) (href ?target) = Inr (sample_upstream ct)" for ct
    by (simp add: sample_platform_def)
  have i1: "js_includes ''text/html; charset=ISO-8859-1'' ''text/html''" by code_simp
  have i2: "\<not> js_includes ''image/png'' ''text/html''" by code_simp
  have r: "rewrite_html pf req target ''<p>hi</p>'' = ''<p>hi</p>''" for pf req target
  proof -
    have "segments True csp_meta_re True ''<p>hi</p>'' = map Keep ''<p>hi</p>''"
      "segments True attr_re True ''<p>hi</p>'' = map Keep ''<p>hi</p>''"
      "segments True srcset_re True ''<p>hi</p>'' = map Keep ''<p>hi</p>''" by code_simp+
    then show ?thesis
      by (simp add: rewrite_html_def rewrite_srcsets_def rewrite_attrs_def remove_csp_meta_def
            js_replace_def)
  qed
  show ?thesis
    using response_by_content_type[OF v f, of "''text/html; charset=ISO-8859-1''"]
          response_by_content_type[OF v f, of "''image/png''"]
          i1[unfolded js_includes_iff] i2[unfolded js_includes_iff] r
    by (simp add: sample_upstream_def)
qed

text \<open>
  Claim C1.  The claim asks for a forbidden verdict on the hosts \<^verbatim>\<open>127.0.0.1\<close> and
  \<^verbatim>\<open>0.0.0.0\<close>.  The first pattern of line 22 asks for a backslash after \<^verbatim>\<open>127\<close> and
  after each \<^verbatim>\<open>0\<close>, which no host name has, so neither host is forbidden: with no API key
  and no allowlist configured, the validation lets both targets through to the fetch,
  whatever \<^verbatim>\<open>Number\<close> returns.
\<close>

theorem loopback_address_not_rejected:
  "\<not> forbidden_host ''127.0.0.1'' \<and> \<not> forbidden_host ''0.0.0.0''
   \<and> validate \<lparr>URL_parse = sample_parse, URL_resolve = r, Number = n, fetch = f\<rparr>
        \<lparr>API_KEY = None, ALLOWLIST = None\<rparr> (sample_request ''http://127.0.0.1/'' None)
      = Inr \<lparr>protocol = ''http:'', hostname = ''127.0.0.1'', href = ''http://127.0.0.1/''\<rparr>
   \<and> validate \<lparr>URL_parse = sample_parse, URL_resolve = r, Number = n, fetch = f\<rparr>
        \<lparr>API_KEY = None, ALLOWLIST = None\<rparr> (sample_request ''http://0.0.0.0/'' None)
      = Inr \<lparr>protocol = ''http:'', hostname = ''0.0.0.0'', href = ''http://0.0.0.0/''\<rparr>"
proof -
  have h: "\<not> forbidden_host ''127.0.0.1''" "\<not> forbidden_host ''0.0.0.0''" by code_simp+
  have i: "\<not> forbidden_ip_range n ''127.0.0.1''" "\<not> forbidden_ip_range n ''0.0.0.0''"
    by (rule forbidden_ip_range_needs_backslash, simp)+
  have a: "allowlist \<lparr>API_KEY = None, ALLOWLIST = None\<rparr> = []" by code_simp
  from h i a show ?thesis
    by (simp add: validate_def sample_request_def sample_parse_def targetUrl_def
          unauthorized_def api_key_of_def provided_def)
qed

text \<open>
  Claim C2.  The claim asks for the verdict \<^verbatim>\<open>Forbidden IP range\<close> on the dotted quads of
  the private ranges.  The pattern of line 26 asks for a backslash before each group of
  the letter d and each dot, so the range test is never reached for a dotted quad:
  \<^verbatim>\<open>10.0.0.1\<close>, \<^verbatim>\<open>172.16.0.1\<close> and \<^verbatim>\<open>192.168.1.1\<close> are not in a forbidden range, whatever
  \<^verbatim>\<open>Number\<close> returns, and the validation lets \<^verbatim>\<open>http://10.0.0.1/\<close> through to the fetch.
\<close>

theorem private_address_not_rejected:
  "\<not> forbidden_ip_range n ''10.0.0.1'' \<and> \<not> forbidden_ip_range n ''172.16.0.1''
   \<and> \<not> forbidden_ip_range n ''192.168.1.1''
   \<and> validate \<lparr>URL_parse = sample_parse, URL_resolve = r, Number = n, fetch = f\<rparr>
        \<lparr>API_KEY = None, ALLOWLIST = None\<rparr> (sample_request ''http://10.0.0.1/'' None)
      = Inr \<lparr>protocol = ''http:'', hostname = ''10.0.0.1'', href = ''http://10.0.0.1/''\<rparr>"
proof -
  have h: "\<not> forbidden_host ''10.0.0.1''" by code_simp
  have i: "\<not> forbidden_ip_range n ''10.0.0.1''" "\<not> forbidden_ip_range n ''172.16.0.1''"
    "\<not> forbidden_ip_range n ''192.168.1.1''"
    by (rule forbidden_ip_range_needs_backslash, simp)+
  have a: "allowlist \<lparr>API_KEY = None, ALLOWLIST = None\<rparr> = []" by code_simp
  from h i a show ?thesis
    by (simp add: validate_def sample_request_def sample_parse_def targetUrl_def
          unauthorized_def api_key_of_def provided_def)
qed

text \<open>
  Claim C3.  The claim asks that \<^verbatim>\<open><img src="https://cdn.test/x.png">\<close> and
  \<^verbatim>\<open><a href="../other.html">\<close> come out with a proxy URL.  The pattern of line 64 asks
  for a backslash and the digit 2 after the value instead of the closing quote, so
  both documents come out as they went in, for every platform, request and base URL.
\<close>

theorem src_and_href_not_rewritten:
  "rewrite_html pf req target ''<img src=\"https://cdn.test/x.png\">''
     = ''<img src=\"https://cdn.test/x.png\">''
   \<and> rewrite_html pf req target ''<a href=\"../other.html\">'' = ''<a href=\"../other.html\">''"
proof -
  have "remove_csp_meta ''<img src=\"https://cdn.test/x.png\">'' = ''<img src=\"https://cdn.test/x.png\">''"
    "remove_csp_meta ''<a href=\"../other.html\">'' = ''<a href=\"../other.html\">''"
    by code_simp+
  then show ?thesis by (simp add: rewrite_html_needs_backslash)
qed

text \<open>
  Claim C4.  The claim asks that each candidate of
  \<^verbatim>\<open>srcset="img1.png 1x, img2.png 2x"\<close> be rewritten.  The pattern of line 67 asks for a
  backslash and the digit 1 after the value instead of the closing quote, so the
  document comes out as it went in, for every platform, request and base URL.
\<close>

theorem srcset_not_rewritten:
  "rewrite_html pf req target ''<img srcset=\"img1.png 1x, img2.png 2x\">''
     = ''<img srcset=\"img1.png 1x, img2.png 2x\">''"
proof -
  have "remove_csp_meta ''<img srcset=\"img1.png 1x, img2.png 2x\">''
          = ''<img srcset=\"img1.png 1x, img2.png 2x\">''"
    by code_simp
  then show ?thesis by (simp add: rewrite_html_needs_backslash)
qed




text \<open>
  Claim C9.  As stated, the claim says that the output never contains a meta tag with
  \<^verbatim>\<open>http-equiv="Content-Security-Policy"\<close> that the input contained.  The replacement of
  line 51 makes one pass from left to right and does not look at its own output: the
  input below holds such a tag between \<^verbatim>\<open><me\<close> and \<^verbatim>\<open>ta http-equiv=...>\<close>, and deleting it
  joins the two into the same tag, which the whole rewriting leaves in the output.
\<close>

theorem csp_meta_tag_survives:
  "''<meta http-equiv=\"Content-Security-Policy\">'' \<in> lang True csp_meta_re
   \<and> remove_csp_meta (''<me'' @ ''<meta http-equiv=\"Content-Security-Policy\">''
                         @ ''ta http-equiv=\"Content-Security-Policy\">'')
       = ''<meta http-equiv=\"Content-Security-Policy\">''
   \<and> rewrite_html (sample_platform ''text/html'') (sample_request ''https://example.com/'' None)
        \<lparr>protocol = ''https:'', hostname = ''example.com'', href = ''https://example.com/''\<rparr>
        (''<me'' @ ''<meta http-equiv=\"Content-Security-Policy\">''
                @ ''ta http-equiv=\"Content-Security-Policy\">'')
       = ''<meta http-equiv=\"Content-Security-Policy\">''
   \<and> re_test True csp_meta_re ''<meta http-equiv=\"Content-Security-Policy\">''"
proof -
  let ?tag = "''<meta http-equiv=\"Content-Security-Policy\">''"
  let ?html = "''<me'' @ ?tag @ ''ta http-equiv=\"Content-Security-Policy\">''"
  have "match_here True csp_meta_re True ?tag = Some ([], [])" by code_simp
  then have 1: "?tag \<in> lang True csp_meta_re" by (rule whole_match_in_lang)
  have 2: "remove_csp_meta ?html = ?tag" by code_simp
  have b: "BSL \<notin> set ?tag" by simp
  have 4: "rewrite_html pf req target ?html = ?tag" for pf req target
    unfolding rewrite_html_def 2 rewrite_attrs_needs_backslash[OF b]
      rewrite_srcsets_needs_backslash[OF b] ..
  have 5: "re_test True csp_meta_re ?tag" by code_simp
  from 1 2 4 5 show ?thesis by blast
qed

text \<open>
  Claim C9, amended.  Every meta tag of the form \<open>is_csp_meta_tag\<close> (no \<^verbatim>\<open>>\<close> before its
  closing \<^verbatim>\<open>>\<close>) that stands in the input, between \<open>pre\<close> and \<open>post\<close>, is deleted by the
  pass of line 51: the pass finds a match \<open>m\<close> that ends with the tag, \<open>m = u @ tag\<close>,
  where \<open>m\<close> is itself of this form (so it starts with \<^verbatim>\<open><meta\<close>) and \<open>u\<close> holds no \<^verbatim>\<open>>\<close>; the
  output is made of what the pass keeps of the segments before and after \<open>m\<close>, with
  nothing in the place of \<open>m\<close>.  Nothing is said of a tag with a \<^verbatim>\<open>>\<close> inside an attribute
  value, nor of tags that the deletion itself puts together.
\<close>

theorem csp_meta_tags_deleted:
  assumes "is_csp_meta_tag tag"
  shows "\<exists>A m cp B u.
           segments True csp_meta_re True (pre @ tag @ post) = A @ Hit m cp # B
         \<and> pre = concat (map seg_text A) @ u \<and> m = u @ tag \<and> post = concat (map seg_text B)
         \<and> is_csp_meta_tag m \<and> CHR ''>'' \<notin> set u
         \<and> remove_csp_meta (pre @ tag @ post)
             = concat (map (render (\<lambda>m cp. [])) A) @ concat (map (render (\<lambda>m cp. [])) B)"
proof -
  from assms have tag: "tag \<in> lang True csp_meta_re" by (simp only: is_csp_meta_tag_iff)
  from csp_tag_covered[OF tag, of True pre post] obtain A m cp B u where
    a: "segments True csp_meta_re True (pre @ tag @ post) = A @ Hit m cp # B"
       "pre = concat (map seg_text A) @ u" "m = u @ tag" "post = concat (map seg_text B)"
    by blast
  from a(1) have "Hit m cp \<in> set (segments True csp_meta_re True (pre @ tag @ post))" by simp
  from hit_in_lang[OF this] have m: "m \<in> lang True csp_meta_re" by blast
  then have m': "is_csp_meta_tag m" by (simp only: is_csp_meta_tag_iff)
  from csp_tag_shape[OF m] obtain y where y: "m = y @ ''>''" "CHR ''>'' \<notin> set y" by blast
  from csp_tag_shape[OF tag] obtain t where t: "tag = t @ ''>''" by blast
  from a(3) y(1) t have "y = u @ t" by simp
  with y(2) have u: "CHR ''>'' \<notin> set u" by simp
  from a(1) have "remove_csp_meta (pre @ tag @ post)
             = concat (map (render (\<lambda>m cp. [])) A) @ concat (map (render (\<lambda>m cp. [])) B)"
    by (simp add: remove_csp_meta_def js_replace_def)
  with a m' u show ?thesis by blast
qed

theorem csp_meta_tags_deleted_witness:
  "is_csp_meta_tag ''<meta http-equiv=\"Content-Security-Policy\" content=\"default-src 'self'\">''
   \<and> (\<exists>A m cp B u.
           segments True csp_meta_re True
             (''<head>'' @ ''<meta http-equiv=\"Content-Security-Policy\" content=\"default-src 'self'\">''
              @ ''</head>'') = A @ Hit m cp # B
         \<and> ''<head>'' = concat (map seg_text A) @ u
         \<and> m = u @ ''<meta http-equiv=\"Content-Security-Policy\" content=\"default-src 'self'\">''
         \<and> ''</head>'' = concat (map seg_text B)
         \<and> is_csp_meta_tag m \<and> CHR ''>'' \<notin> set u
         \<and> remove_csp_meta
             (''<head>'' @ ''<meta http-equiv=\"Content-Security-Policy\" content=\"default-src 'self'\">''
              @ ''</head>'')
             = concat (map (render (\<lambda>m cp. [])) A) @ concat (map (render (\<lambda>m cp. [])) B))
   \<and> remove_csp_meta
         (''<head>'' @ ''<meta http-equiv=\"Content-Security-Policy\" content=\"default-src 'self'\">''
          @ ''</head>'') = ''<head></head>''"
proof -
  let ?tag = "''<meta http-equiv=\"Content-Security-Policy\" content=\"default-src 'self'\">''"
  have "match_here True csp_meta_re True ?tag = Some ([], [])" by code_simp
  then have "?tag \<in> lang True csp_meta_re" by (rule whole_match_in_lang)
  then have 1: "is_csp_meta_tag ?tag" by (simp only: is_csp_meta_tag_iff)
  have 2: "remove_csp_meta (''<head>'' @ ?tag @ ''</head>'') = ''<head></head>''" by code_simp
  from 1 2 csp_meta_tags_deleted[OF 1, of "''<head>''" "''</head>''"] show ?thesis by blast
qed

section \<open>Further properties of the patterns as written\<close>

text \<open>
  The part of the host screening that the first pattern of line 22 and the pattern
  \<^verbatim>\<open>/\.local$/i\<close> do perform: the texts \<^verbatim>\<open>localhost\<close> and \<^verbatim>\<open>::1\<close> and every host name that
  ends in \<^verbatim>\<open>.local\<close> are forbidden.
\<close>

lemma search_dot_local: "search True dot_local_re b (s @ ''.local'')"
proof (induction s arbitrary: b)
  case Nil
  have "match_here True dot_local_re b ''.local'' = Some ([], [])"
    by (simp add: match_here_def dot_local_re_def same_char_def)
  then show ?case by simp
next
  case (Cons c s)
  then show ?case by simp
qed

theorem local_names_forbidden:
  "forbidden_host ''localhost'' \<and> forbidden_host ''::1'' \<and> forbidden_host (s @ ''.local'')"
proof -
  have "forbidden_host ''localhost''" "forbidden_host ''::1''" by code_simp+
  moreover have "forbidden_host (s @ ''.local'')"
    using search_dot_local[of True s] by (simp add: forbidden_host_def re_test_def)
  ultimately show ?thesis by blast
qed

text \<open>
  The range test of lines 26 to 33 rejects no host name that does not begin with a
  backslash, whatever \<^verbatim>\<open>Number\<close> returns; the sample runs it on \<^verbatim>\<open>192.168.1.1\<close> with the
  numbers that \<^verbatim>\<open>Number\<close> gives for its pieces.
\<close>

theorem ip_range_gate_needs_backslash:
  "(\<forall>v. host \<noteq> BSL # v) \<longrightarrow> \<not> forbidden_ip_range to_number host"
  using forbidden_ip_range_needs_backslash[of host to_number] by blast

theorem ip_range_gate_needs_backslash_witness:
  "map sample_number (split_on CHR ''.'' ''192.168.1.1'') = [Fin 192, Fin 168, Fin 1, Fin 1]
   \<and> \<not> forbidden_ip_range sample_number ''192.168.1.1''"
proof -
  have "map sample_number (split_on CHR ''.'' ''192.168.1.1'') = [Fin 192, Fin 168, Fin 1, Fin 1]"
    by code_simp
  with ip_range_gate_needs_backslash[where host = "''192.168.1.1''" and to_number = sample_number]
  show ?thesis by simp
qed

text \<open>
  The attribute pass and the \<^verbatim>\<open>srcset\<close> pass return a document without a backslash as
  it is, whatever the attributes in it.
\<close>

theorem passes_need_backslash:
  "BSL \<notin> set html \<longrightarrow>
     rewrite_attrs pf req target html = html \<and> rewrite_srcsets pf req target html = html"
  by (simp add: rewrite_attrs_needs_backslash rewrite_srcsets_needs_backslash)

theorem passes_need_backslash_witness:
  "rewrite_attrs (sample_platform ''text/html'') (sample_request ''https://example.com/'' None)
      \<lparr>protocol = ''https:'', hostname = ''example.com'', href = ''https://example.com/''\<rparr>
      ''<script src=\"/x\"></script><img srcset=\"ok.png 2x\">''
     = ''<script src=\"/x\"></script><img srcset=\"ok.png 2x\">''
   \<and> rewrite_srcsets (sample_platform ''text/html'') (sample_request ''https://example.com/'' None)
      \<lparr>protocol = ''https:'', hostname = ''example.com'', href = ''https://example.com/''\<rparr>
      ''<script src=\"/x\"></script><img srcset=\"ok.png 2x\">''
     = ''<script src=\"/x\"></script><img srcset=\"ok.png 2x\">''"
  using passes_need_backslash[where html = "''<script src=\"/x\"></script><img srcset=\"ok.png 2x\">''"
          and pf = "sample_platform ''text/html''" and req = "sample_request ''https://example.com/'' None"
          and target = "\<lparr>protocol = ''https:'', hostname = ''example.com'', href = ''https://example.com/''\<rparr>"]
  by simp

text \<open>
  A meta tag with a \<^verbatim>\<open>>\<close> inside an attribute value is not of the form \<open>is_csp_meta_tag\<close>:
  of the first tag below the pass of line 51 leaves the end \<^verbatim>\<open>b">\<close>, and the second it
  leaves as it is.
\<close>

lemma csp_meta_tag_with_gt_in_value:
  "\<not> is_csp_meta_tag ''<meta http-equiv=\"Content-Security-Policy\" content=\"a>b\">''
   \<and> remove_csp_meta ''<meta http-equiv=\"Content-Security-Policy\" content=\"a>b\">'' = ''b\">''
   \<and> remove_csp_meta ''<meta content=\"a>b\" http-equiv=\"Content-Security-Policy\">''
       = ''<meta content=\"a>b\" http-equiv=\"Content-Security-Policy\">''"
proof -
  have "\<not> is_csp_meta_tag ''<meta http-equiv=\"Content-Security-Policy\" content=\"a>b\">''"
  proof
    assume "is_csp_meta_tag ''<meta http-equiv=\"Content-Security-Policy\" content=\"a>b\">''"
    then have "''<meta http-equiv=\"Content-Security-Policy\" content=\"a>b\">'' \<in> lang True csp_meta_re"
      by (simp only: is_csp_meta_tag_iff)
    from csp_tag_shape[OF this] obtain t where
      t: "''<meta http-equiv=\"Content-Security-Policy\" content=\"a>b\">'' = t @ ''>''"
         "CHR ''>'' \<notin> set t" by blast
    have "butlast ''<meta http-equiv=\"Content-Security-Policy\" content=\"a>b\">'' = t"
      by (subst t(1)) simp
    moreover have "CHR ''>'' \<in> set (butlast ''<meta http-equiv=\"Content-Security-Policy\" content=\"a>b\">'')"
      by code_simp
    ultimately have "CHR ''>'' \<in> set t" by simp
    with t(2) show False by simp
  qed
  moreover have "remove_csp_meta ''<meta http-equiv=\"Content-Security-Policy\" content=\"a>b\">'' = ''b\">''"
    by code_simp
  moreover have "remove_csp_meta ''<meta content=\"a>b\" http-equiv=\"Content-Security-Policy\">''
       = ''<meta content=\"a>b\" http-equiv=\"Content-Security-Policy\">''"
    by code_simp
  ultimately show ?thesis by blast
qed

text \<open>
  \<^verbatim>\<open>new URL\<close> gives the host name of \<^verbatim>\<open>http://[::1]/\<close> with its brackets, and the alternative
  \<^verbatim>\<open>::1\<close> of line 22 does not match it.
\<close>

lemma bracketed_loopback_not_forbidden: "\<not> forbidden_host ''[::1]''"
  by code_simp

end
